theory Spec2Isabelle
  imports Complex_Main "HOL-Library.Log_Nat"
begin

section \<open>Python strings\<close>

text \<open>
  A Python \<open>str\<close> is a sequence of Unicode code points and \<open>len\<close> counts code points, so a
  string is modelled as a list of code points. The clause separators of the chunker include
  the en dash and the em dash, which are single code points above the ASCII range.
\<close>

type_synonym pystr = "nat list"

definition of_ascii :: "string \<Rightarrow> pystr" where
  "of_ascii s = map of_char s"

text \<open>
  \<open>str.split()\<close>, \<open>str.strip()\<close> and the regular expression class \<open>\s\<close> (on \<open>str\<close>
  patterns) all use the same test, \<open>str.isspace\<close> on one code point.
\<close>

definition py_isspace :: "nat \<Rightarrow> bool" where
  "py_isspace c \<longleftrightarrow>
     (9 \<le> c \<and> c \<le> 13) \<or> (28 \<le> c \<and> c \<le> 32) \<or> c = 133 \<or> c = 160 \<or> c = 5760 \<or>
     (8192 \<le> c \<and> c \<le> 8202) \<or> c = 8232 \<or> c = 8233 \<or> c = 8239 \<or> c = 8287 \<or> c = 12288"

text \<open>\<open>text.split()\<close>: the maximal runs of non-whitespace, in order.\<close>

fun py_split_from :: "pystr \<Rightarrow> pystr \<Rightarrow> pystr list" where
  "py_split_from w [] = (if w = [] then [] else [w])"
| "py_split_from w (c # cs) =
     (if py_isspace c then (if w = [] then py_split_from [] cs else w # py_split_from [] cs)
      else py_split_from (w @ [c]) cs)"

definition py_split :: "pystr \<Rightarrow> pystr list" where
  "py_split s = py_split_from [] s"

text \<open>\<open>sep.join(xs)\<close>\<close>

fun py_join :: "pystr \<Rightarrow> pystr list \<Rightarrow> pystr" where
  "py_join sep [] = []"
| "py_join sep [x] = x"
| "py_join sep (x # y # ys) = x @ sep @ py_join sep (y # ys)"

text \<open>\<open>s.strip()\<close>\<close>

definition py_strip :: "pystr \<Rightarrow> pystr" where
  "py_strip s = rev (dropWhile py_isspace (rev (dropWhile py_isspace s)))"

text \<open>
  \<open>re.split(r'(?<=[X])\s+', s)\<close> for a character class \<open>X\<close>: the string is cut at every
  maximal whitespace run whose first character follows a character of the class. The
  arguments are the class, the character before the current position (for the lookbehind),
  the piece collected so far and the rest of the string.
\<close>

function re_split_from :: "(nat \<Rightarrow> bool) \<Rightarrow> nat option \<Rightarrow> pystr \<Rightarrow> pystr \<Rightarrow> pystr list" where
  "re_split_from P prev cur [] = [cur]"
| "re_split_from P prev cur (c # cs) =
     (if py_isspace c \<and> (case prev of None \<Rightarrow> False | Some p \<Rightarrow> P p)
      then cur # re_split_from P (Some (last (c # takeWhile py_isspace cs))) []
                   (dropWhile py_isspace cs)
      else re_split_from P (Some c) (cur @ [c]) cs)"
  by pat_completeness auto
termination
  by (relation "measure (\<lambda>(P, prev, cur, s). length s)")
     (auto simp: length_dropWhile_le less_Suc_eq_le)

definition re_split_after :: "(nat \<Rightarrow> bool) \<Rightarrow> pystr \<Rightarrow> pystr list" where
  "re_split_after P s = re_split_from P None [] s"

section \<open>tts\_service.py: the text chunker\<close>

definition MAX_CHUNK_CHARS :: nat where
  "MAX_CHUNK_CHARS = 200"

text \<open>The class \<open>[.!?]\<close>.\<close>

definition sentence_end :: "nat \<Rightarrow> bool" where
  "sentence_end c \<longleftrightarrow> c = 46 \<or> c = 33 \<or> c = 63"

text \<open>The class of comma, semicolon, en dash (U+2013) and em dash (U+2014).\<close>

definition clause_sep :: "nat \<Rightarrow> bool" where
  "clause_sep c \<longleftrightarrow> c = 44 \<or> c = 59 \<or> c = 8211 \<or> c = 8212"

text \<open>
  The inner loop over \<open>sub_parts\<close>; the state is the list \<open>chunks\<close> and \<open>current_chunk\<close>.
\<close>

fun pack_parts :: "pystr list \<Rightarrow> pystr \<Rightarrow> pystr list \<Rightarrow> pystr list \<times> pystr" where
  "pack_parts chunks current_chunk [] = (chunks, current_chunk)"
| "pack_parts chunks current_chunk (part # parts) =
     (if length current_chunk + length part + 1 \<le> MAX_CHUNK_CHARS
      then pack_parts chunks
             (if current_chunk \<noteq> [] then py_strip (current_chunk @ [32] @ part) else part) parts
      else pack_parts (if current_chunk \<noteq> [] then chunks @ [current_chunk] else chunks)
             part parts)"

text \<open>The outer loop over \<open>sentences\<close>.\<close>

fun chunk_sentences :: "pystr list \<Rightarrow> pystr list \<Rightarrow> pystr list" where
  "chunk_sentences chunks [] = chunks"
| "chunk_sentences chunks (sentence # sentences) =
     (if length sentence \<le> MAX_CHUNK_CHARS
      then chunk_sentences (chunks @ [sentence]) sentences
      else (case pack_parts chunks [] (re_split_after clause_sep sentence) of
              (chunks', current_chunk) \<Rightarrow>
                chunk_sentences
                  (if current_chunk \<noteq> [] then chunks' @ [current_chunk] else chunks')
                  sentences))"

definition split_into_sentences :: "pystr \<Rightarrow> pystr list" where
  "split_into_sentences text0 =
     (let text = py_join [32] (py_split text0);
          sentences = re_split_after sentence_end text;
          sentences = map py_strip (filter (\<lambda>s. py_strip s \<noteq> []) sentences);
          chunks = chunk_sentences [] sentences
      in if chunks \<noteq> [] then chunks else [text])"


section \<open>config.py\<close>

record model_descriptor =
  name :: pystr
  repo_id :: pystr
  local_path :: pystr

text \<open>The table \<open>MODELS\<close>; paths are written relative to \<open>BASE_DIR\<close>.\<close>

definition MODELS :: "pystr \<rightharpoonup> model_descriptor" where
  "MODELS = map_of
     [(of_ascii ''en'',
         \<lparr>name = of_ascii ''English'',
          repo_id = of_ascii ''nineninesix/kani-tts-400m-en'',
          local_path = of_ascii ''models/kani-tts-400m-en''\<rparr>),
      (of_ascii ''de'',
         \<lparr>name = of_ascii ''German (Multilingual)'',
          repo_id = of_ascii ''nineninesix/kani-tts-370m'',
          local_path = of_ascii ''models/kani-tts-370m''\<rparr>)]"

definition SAMPLE_RATE :: nat where
  "SAMPLE_RATE = 22050"

section \<open>Errors and the world outside the program\<close>

text \<open>
  Every exception class the modelled code raises, with its message; \<open>HTTPException\<close> carries
  the status code and the detail.
\<close>

datatype py_error =
    ValueError pystr
  | RuntimeError pystr
  | KeyError pystr
  | ZeroDivisionError
  | OverflowError
  | HTTPException nat pystr

text \<open>
  The effects on things outside the process that the claims speak about: a construction of a
  runtime handle (\<open>KaniTTS(path, device_map="cpu")\<close>) and the operations on the files of
  \<open>OUTPUT_DIR\<close>. They are appended to the field \<open>effects\<close> of the world in program order.
\<close>

datatype effect =
    Construct pystr
  | PathExists pystr
  | RemoveFile pystr
  | SaveAudio pystr
  | ReadFile pystr

text \<open>
  The world: the two fields of \<open>TTSService\<close>, the model directories (a directory path
  mapped to the names of its entries; no entry when the path does not exist), the files of
  \<open>OUTPUT_DIR\<close> with their bytes, and the effects so far.
\<close>

record 'h world =
  models :: "pystr \<rightharpoonup> 'h"
  current_model_key :: "pystr option"
  model_dirs :: "pystr \<rightharpoonup> pystr list"
  output_files :: "pystr \<rightharpoonup> nat list"
  effects :: "effect list"

text \<open>
  The model runtime (package \<open>kani_tts\<close>) and \<open>uuid4\<close> are not part of the repository; they
  are parameters. Each capability returns its value or the text of the exception it raised.
  Samples are \<open>float32\<close> in the source and real numbers here; only their count and order
  matter below.
\<close>

record 'h runtime =
  construct :: "pystr \<Rightarrow> pystr + 'h"
  synthesize :: "'h \<Rightarrow> pystr \<Rightarrow> pystr option \<Rightarrow> pystr + real list"
  save_audio :: "'h \<Rightarrow> real list \<Rightarrow> pystr + nat list"
  uuid_hex8 :: pystr

section \<open>downloader.py\<close>

text \<open>\<open>sub in s\<close> on strings.\<close>

fun py_startswith :: "'a list \<Rightarrow> 'a list \<Rightarrow> bool" where
  "py_startswith s [] = True"
| "py_startswith [] (p # ps) = False"
| "py_startswith (c # cs) (p # ps) = (c = p \<and> py_startswith cs ps)"

fun py_contains :: "'a list \<Rightarrow> 'a list \<Rightarrow> bool" where
  "py_contains [] sub = (sub = [])"
| "py_contains (c # cs) sub = (py_startswith (c # cs) sub \<or> py_contains cs sub)"

definition py_endswith :: "'a list \<Rightarrow> 'a list \<Rightarrow> bool" where
  "py_endswith s suf \<longleftrightarrow> py_startswith (rev s) (rev suf)"

text \<open>
  The three patterns of \<open>essential_patterns\<close> are of two shapes: \<open>*.ext\<close>, matching every
  name that ends with \<open>.ext\<close>, and a literal name.
\<close>

datatype glob_pattern = StarSuffix pystr | Literal pystr

fun glob_match :: "glob_pattern \<Rightarrow> pystr \<Rightarrow> bool" where
  "glob_match (StarSuffix suf) nm = py_endswith nm suf"
| "glob_match (Literal l) nm = (nm = l)"

definition essential_patterns :: "glob_pattern list" where
  "essential_patterns =
     [StarSuffix (of_ascii ''.safetensors''), Literal (of_ascii ''config.json''),
      StarSuffix (of_ascii ''.bin'')]"

text \<open>The loop \<open>for pattern in essential_patterns\<close>, which returns at the first hit.\<close>

fun any_pattern_found :: "pystr list \<Rightarrow> glob_pattern list \<Rightarrow> bool" where
  "any_pattern_found entries [] = False"
| "any_pattern_found entries (pattern # patterns) =
     (if filter (glob_match pattern) entries \<noteq> [] then True
      else any_pattern_found entries patterns)"

definition is_model_downloaded :: "(pystr \<rightharpoonup> pystr list) \<Rightarrow> pystr \<Rightarrow> bool" where
  "is_model_downloaded dirs model_key =
     (case MODELS model_key of
        None \<Rightarrow> False
      | Some m \<Rightarrow>
          (case dirs (local_path m) of
             None \<Rightarrow> False
           | Some entries \<Rightarrow> any_pattern_found entries essential_patterns))"

record DownloadProgress =
  model_key :: pystr
  total_size :: int
  downloaded_size :: int
  current_file :: pystr
  status :: pystr
  error_message :: "pystr option"
  files_total :: int
  files_downloaded :: int

text \<open>\<open>DownloadProgress.__init__\<close>\<close>

definition new_progress :: "pystr \<Rightarrow> DownloadProgress" where
  "new_progress k =
     \<lparr>model_key = k, total_size = 0, downloaded_size = 0, current_file = [],
      status = of_ascii ''pending'', error_message = None, files_total = 0,
      files_downloaded = 0\<rparr>"

text \<open>
  A Python float is an IEEE 754 double. It is modelled as the real number it denotes, and
  every operation rounds its exact result to the nearest double, a tie going to the even
  mantissa. \<open>ilog2 x\<close> is the exponent of a positive \<open>x\<close>, the integer \<open>e\<close> with
  \<open>2^e \<le> x < 2^(e+1)\<close>; a double has 53 bits of mantissa, so the doubles around \<open>x\<close> are
  the multiples of \<open>2^(e-52)\<close>, and of \<open>2^(-1074)\<close> in the subnormal range. A result of
  \<open>to_double\<close> of at least \<open>2^1024\<close> is beyond the largest double: the operation
  overflows.
\<close>

definition ilog2 :: "real \<Rightarrow> int" where
  "ilog2 x = (if 1 \<le> x then bitlen \<lfloor>x\<rfloor> - 1 else - bitlen (\<lceil>1 / x\<rceil> - 1))"

definition round_half_even :: "real \<Rightarrow> int" where
  "round_half_even y =
     (let f = \<lfloor>y\<rfloor> in
      if y - of_int f < 1 / 2 then f
      else if 1 / 2 < y - of_int f then f + 1
      else if even f then f else f + 1)"

definition to_double :: "real \<Rightarrow> real" where
  "to_double x =
     (if x = 0 then 0
      else (let u = 2 powi (max (ilog2 \<bar>x\<bar> - 52) (- 1074))
            in of_int (round_half_even (x / u)) * u))"

text \<open>
  \<open>a / b\<close> on Python integers is the correctly rounded quotient. It raises
  \<open>ZeroDivisionError\<close> for \<open>b = 0\<close> and \<open>OverflowError\<close> when the rounded quotient is too
  large for a float.
\<close>

definition py_truediv :: "int \<Rightarrow> int \<Rightarrow> py_error + real" where
  "py_truediv a b =
     (if b = 0 then Inl ZeroDivisionError
      else (let q = to_double (real_of_int a / real_of_int b)
            in if 2 ^ 1024 \<le> \<bar>q\<bar> then Inl OverflowError else Inr q))"

text \<open>
  \<open>x * y\<close> on floats does not raise: a product that overflows is \<open>inf\<close>, here a number of
  at least \<open>2^1024\<close>, and \<open>min(100.0, inf)\<close> is \<open>100.0\<close>.
\<close>

definition py_float_mul :: "real \<Rightarrow> real \<Rightarrow> real" where
  "py_float_mul x y = to_double (x * y)"

definition progress_percent :: "DownloadProgress \<Rightarrow> py_error + real" where
  "progress_percent p =
     (if total_size p = 0 then Inr 0
      else (case py_truediv (downloaded_size p) (total_size p) of
              Inl e \<Rightarrow> Inl e
            | Inr q \<Rightarrow> Inr (min 100 (py_float_mul q 100))))"

text \<open>
  \<open>round(x, 1)\<close> on a float: the exact value of \<open>x\<close> is rounded to the nearest tenth, a tie
  going to the even digit, and the result is the double nearest to that decimal.
\<close>

definition py_round1 :: "real \<Rightarrow> real" where
  "py_round1 x = to_double (of_int (round_half_even (x * 10)) / 10)"

text \<open>The values of the dictionaries that are sent as JSON.\<close>

datatype json = JStr pystr | JInt int | JFloat real | JNone

type_synonym dict = "(string \<times> json) list"

definition to_dict :: "DownloadProgress \<Rightarrow> py_error + dict" where
  "to_dict p =
     (case MODELS (model_key p) of
        None \<Rightarrow> Inl (KeyError (model_key p))
      | Some m \<Rightarrow>
          (case progress_percent p of
             Inl e \<Rightarrow> Inl e
           | Inr pc \<Rightarrow>
               Inr [(''model_key'', JStr (model_key p)),
                    (''model_name'', JStr (name m)),
                    (''total_size'', JInt (total_size p)),
                    (''downloaded_size'', JInt (downloaded_size p)),
                    (''progress_percent'', JFloat (py_round1 pc)),
                    (''current_file'', JStr (current_file p)),
                    (''status'', JStr (status p)),
                    (''error_message'',
                       (case error_message p of None \<Rightarrow> JNone | Some msg \<Rightarrow> JStr msg)),
                    (''files_total'', JInt (files_total p)),
                    (''files_downloaded'', JInt (files_downloaded p))]))"

text \<open>
  What the generator \<open>download_model_with_progress\<close> does, in order: it yields a dictionary,
  asks the hub for the repository's file list, starts the transfer in the executor, or ends
  by raising.
\<close>

datatype action =
    Yield dict
  | FetchRepoInfo pystr
  | StartTransfer pystr pystr
  | Raise py_error

text \<open>
  The hub and the transfer are outside the repository. One run of them is described by: the
  answer of \<open>repo_info\<close> (the sizes of the siblings, \<open>None\<close> where the hub gives none, or a
  fault), the directory size and file count that each round of the polling loop measured
  while the transfer was not done, and how the transfer ended. A transfer that never ends
  makes the source poll forever; such runs have no finite description and are not covered.
  Faults of the other statements of the \<open>try\<close> block (creating the directory) are not
  distinguished from a fault of the transfer.
\<close>

datatype fault = GatedRepoError | RepositoryNotFoundError | OtherError pystr

record hub_run =
  repo_info :: "fault + int option list"
  polls :: "(int \<times> int) list"
  transfer_result :: "fault option"

text \<open>\<open>yield f"data: {json.dumps(progress.to_dict())}\n\n"\<close>\<close>

definition yield_progress :: "DownloadProgress \<Rightarrow> action" where
  "yield_progress p = (case to_dict p of Inl e \<Rightarrow> Raise e | Inr d \<Rightarrow> Yield d)"

text \<open>The three \<open>except\<close> clauses.\<close>

fun on_fault :: "fault \<Rightarrow> DownloadProgress \<Rightarrow> DownloadProgress" where
  "on_fault GatedRepoError p =
     p\<lparr>status := of_ascii ''error'',
       error_message :=
         Some (of_ascii ''This model requires authentication. Please log in to Hugging Face.'')\<rparr>"
| "on_fault RepositoryNotFoundError p =
     p\<lparr>status := of_ascii ''error'',
       error_message := Some (of_ascii ''Model repository not found.'')\<rparr>"
| "on_fault (OtherError msg) p =
     p\<lparr>status := of_ascii ''error'', error_message := Some msg\<rparr>"

text \<open>The polling loop: the progress after each round, in order, and the last one.\<close>

fun poll_loop :: "DownloadProgress \<Rightarrow> (int \<times> int) list \<Rightarrow> DownloadProgress list \<times> DownloadProgress" where
  "poll_loop p [] = ([], p)"
| "poll_loop p ((sz, cnt) # rest) =
     (let p' = p\<lparr>downloaded_size := sz, files_downloaded := cnt\<rparr>
      in case poll_loop p' rest of (ps, q) \<Rightarrow> (p' # ps, q))"

text \<open>A generator ends at its first raise.\<close>

fun until_raise :: "action list \<Rightarrow> action list" where
  "until_raise [] = []"
| "until_raise (Raise e # rest) = [Raise e]"
| "until_raise (a # rest) = a # until_raise rest"

definition download_model_with_progress ::
  "hub_run \<Rightarrow> (pystr \<rightharpoonup> pystr list) \<Rightarrow> pystr \<Rightarrow> action list" where
  "download_model_with_progress hub dirs k =
     (case MODELS k of
        None \<Rightarrow>
          [Yield [(''status'', JStr (of_ascii ''error'')),
                  (''error_message'', JStr (of_ascii ''Unknown model''))]]
      | Some model \<Rightarrow>
          (let progress = new_progress k in
           if is_model_downloaded dirs k
           then until_raise
                  [yield_progress
                     (progress\<lparr>status := of_ascii ''completed'', downloaded_size := 1,
                               total_size := 1\<rparr>)]
           else
             (let progress = progress\<lparr>status := of_ascii ''downloading''\<rparr> in
              until_raise
                (yield_progress progress # FetchRepoInfo (repo_id model) #
                 (case repo_info hub of
                    Inl f \<Rightarrow> [yield_progress (on_fault f progress)]
                  | Inr siblings \<Rightarrow>
                      (let progress =
                             progress\<lparr>files_total := int (length siblings),
                                       total_size :=
                                         sum_list (map (\<lambda>s. case s of None \<Rightarrow> 0 | Some n \<Rightarrow> n)
                                                       siblings)\<rparr>
                       in yield_progress progress #
                          StartTransfer (repo_id model) (local_path model) #
                          (case poll_loop progress (polls hub) of
                             (ps, progress) \<Rightarrow>
                               map yield_progress ps @
                               (case transfer_result hub of
                                  Some f \<Rightarrow> [yield_progress (on_fault f progress)]
                                | None \<Rightarrow>
                                    [yield_progress
                                       (progress\<lparr>status := of_ascii ''completed'',
                                                 downloaded_size := total_size progress\<rparr>)]))))))))"


section \<open>tts\_service.py: the service\<close>

definition DEFAULT_SPEAKERS :: "pystr \<rightharpoonup> pystr" where
  "DEFAULT_SPEAKERS =
     map_of [(of_ascii ''en'', of_ascii ''jenny''), (of_ascii ''de'', of_ascii ''thorsten'')]"

text \<open>
  A method returns its value or the exception it raised, and the world it leaves: the
  world after a raise is the one that the statements before the raise produced.
\<close>

definition load_model ::
  "'h runtime \<Rightarrow> 'h world \<Rightarrow> pystr \<Rightarrow> (py_error + bool) \<times> 'h world" where
  "load_model rt w k =
     (case MODELS k of
        None \<Rightarrow> (Inl (ValueError (of_ascii ''Unknown model: '' @ k)), w)
      | Some m \<Rightarrow>
          if \<not> is_model_downloaded (model_dirs w) k
          then (Inl (RuntimeError (of_ascii ''Model '' @ k @ of_ascii '' is not downloaded'')), w)
          else if k \<in> dom (models w)
          then (Inr True, w\<lparr>current_model_key := Some k\<rparr>)
          else
            (let w = w\<lparr>effects := effects w @ [Construct (local_path m)]\<rparr> in
             case construct rt (local_path m) of
               Inl e \<Rightarrow> (Inl (RuntimeError (of_ascii ''Failed to load model: '' @ e)), w)
             | Inr model \<Rightarrow>
                 (Inr True, w\<lparr>models := (models w)(k \<mapsto> model), current_model_key := Some k\<rparr>)))"

definition unload_model :: "'h world \<Rightarrow> pystr \<Rightarrow> (py_error + bool) \<times> 'h world" where
  "unload_model w k =
     (if k \<in> dom (models w)
      then (Inr True,
            w\<lparr>models := (models w)(k := None),
              current_model_key :=
                (if current_model_key w = Some k then None else current_model_key w)\<rparr>)
      else (Inr False, w))"

text \<open>
  \<open>int(SAMPLE_RATE * 0.15)\<close>, the number of samples of the pause. The product is 3307.5
  up to the rounding of floats, far from an integer, so the truncation gives the same
  number in floats as in the real numbers.
\<close>

definition silence_len :: nat where
  "silence_len = nat \<lfloor>real SAMPLE_RATE * (15 / 100)\<rfloor>"

text \<open>
  The loop \<open>for i, audio in enumerate(audio_arrays)\<close> that fills \<open>combined_parts\<close>; \<open>n\<close> is
  \<open>len(audio_arrays)\<close>.
\<close>

fun add_parts :: "real list \<Rightarrow> nat \<Rightarrow> nat \<Rightarrow> real list list \<Rightarrow> real list list \<Rightarrow> real list list" where
  "add_parts silence n i combined_parts [] = combined_parts"
| "add_parts silence n i combined_parts (audio # rest) =
     add_parts silence n (i + 1)
       (if int i < int n - 1 then combined_parts @ [audio, silence]
        else combined_parts @ [audio])
       rest"

text \<open>\<open>np.concatenate\<close> raises \<open>ValueError\<close> on an empty list of arrays.\<close>

definition np_concatenate :: "real list list \<Rightarrow> pystr + real list" where
  "np_concatenate parts =
     (if parts = [] then Inl (of_ascii ''need at least one array to concatenate'')
      else Inr (concat parts))"

text \<open>Lines 161 to 171 of \<open>generate\<close>: from \<open>audio_arrays\<close> to \<open>combined_audio\<close>.\<close>

definition stitch :: "real list list \<Rightarrow> pystr + real list" where
  "stitch audio_arrays =
     (if length audio_arrays = 1 then Inr (audio_arrays ! 0)
      else np_concatenate
             (add_parts (replicate silence_len 0) (length audio_arrays) 0 [] audio_arrays))"

text \<open>The loop that calls the model once for each chunk, in order.\<close>

fun synthesize_chunks ::
  "'h runtime \<Rightarrow> 'h \<Rightarrow> pystr option \<Rightarrow> real list list \<Rightarrow> pystr list \<Rightarrow> pystr + real list list" where
  "synthesize_chunks rt model speaker_id audio_arrays [] = Inr audio_arrays"
| "synthesize_chunks rt model speaker_id audio_arrays (chunk # chunks) =
     (case synthesize rt model chunk speaker_id of
        Inl e \<Rightarrow> Inl e
      | Inr chunk_audio \<Rightarrow>
          synthesize_chunks rt model speaker_id (audio_arrays @ [chunk_audio]) chunks)"

text \<open>\<open>speaker or self.DEFAULT_SPEAKERS.get(model_key)\<close>: an empty string is falsy.\<close>

definition speaker_or_default :: "pystr option \<Rightarrow> pystr \<Rightarrow> pystr option" where
  "speaker_or_default speaker k =
     (case speaker of
        None \<Rightarrow> DEFAULT_SPEAKERS k
      | Some s \<Rightarrow> if s = [] then DEFAULT_SPEAKERS k else Some s)"

text \<open>
  The body of the \<open>try\<close> block of \<open>generate\<close>; the left result is the text of the exception
  that the \<open>except\<close> clause wraps.
\<close>

definition generate_body ::
  "'h runtime \<Rightarrow> 'h world \<Rightarrow> 'h \<Rightarrow> pystr \<Rightarrow> pystr \<Rightarrow> pystr option \<Rightarrow>
     (pystr + nat list \<times> pystr) \<times> 'h world" where
  "generate_body rt w model text k speaker =
     (let speaker_id = speaker_or_default speaker k;
          chunks = split_into_sentences text
      in case synthesize_chunks rt model speaker_id [] chunks of
           Inl e \<Rightarrow> (Inl e, w)
         | Inr audio_arrays \<Rightarrow>
             (case stitch audio_arrays of
                Inl e \<Rightarrow> (Inl e, w)
              | Inr combined_audio \<Rightarrow>
                  (let filename = of_ascii ''output_'' @ uuid_hex8 rt @ of_ascii ''.wav'';
                       w = w\<lparr>effects := effects w @ [SaveAudio filename]\<rparr>
                   in case save_audio rt model combined_audio of
                        Inl e \<Rightarrow> (Inl e, w)
                      | Inr audio_bytes \<Rightarrow>
                          (Inr (audio_bytes, filename),
                           w\<lparr>output_files := (output_files w)(filename \<mapsto> audio_bytes),
                             effects := effects w @ [ReadFile filename]\<rparr>))))"

text \<open>
  \<open>TTSService.generate\<close>. The parameters \<open>temperature\<close> and \<open>top_p\<close> are not used by the
  body and are left out.
\<close>

definition generate ::
  "'h runtime \<Rightarrow> 'h world \<Rightarrow> pystr \<Rightarrow> pystr \<Rightarrow> pystr option \<Rightarrow>
     (py_error + nat list \<times> pystr) \<times> 'h world" where
  "generate rt w text k speaker =
     (if text = [] \<or> py_strip text = []
      then (Inl (ValueError (of_ascii ''Text cannot be empty'')), w)
      else
        (case (if k \<notin> dom (models w) then load_model rt w k else (Inr True, w)) of
           (Inl e, w) \<Rightarrow> (Inl e, w)
         | (Inr loaded, w) \<Rightarrow>
             (case models w k of
                None \<Rightarrow> (Inl (KeyError k), w)
              | Some model \<Rightarrow>
                  (case generate_body rt w model text k speaker of
                     (Inl e, w) \<Rightarrow>
                       (Inl (RuntimeError (of_ascii ''Failed to generate audio: '' @ e)), w)
                   | (Inr result, w) \<Rightarrow> (Inr result, w)))))"

section \<open>main.py: the audio endpoints\<close>

text \<open>
  The response of \<open>get_audio\<close> is the file's bytes; that of \<open>delete_audio\<close> is the pair of
  \<open>success\<close> and \<open>message\<close>.
\<close>

definition get_audio :: "'h world \<Rightarrow> pystr \<Rightarrow> (py_error + nat list) \<times> 'h world" where
  "get_audio w filename =
     (if py_contains filename (of_ascii ''..'') \<or> py_contains filename (of_ascii ''/'')
      then (Inl (HTTPException 400 (of_ascii ''Invalid filename'')), w)
      else
        (let w = w\<lparr>effects := effects w @ [PathExists filename]\<rparr> in
         case output_files w filename of
           None \<Rightarrow> (Inl (HTTPException 404 (of_ascii ''Audio file not found'')), w)
         | Some audio \<Rightarrow> (Inr audio, w\<lparr>effects := effects w @ [ReadFile filename]\<rparr>)))"

definition delete_audio :: "'h world \<Rightarrow> pystr \<Rightarrow> (py_error + bool \<times> pystr) \<times> 'h world" where
  "delete_audio w filename =
     (if py_contains filename (of_ascii ''..'') \<or> py_contains filename (of_ascii ''/'')
      then (Inl (HTTPException 400 (of_ascii ''Invalid filename'')), w)
      else
        (let w = w\<lparr>effects := effects w @ [PathExists filename]\<rparr> in
         case output_files w filename of
           None \<Rightarrow> (Inr (False, of_ascii ''File not found''), w)
         | Some audio \<Rightarrow>
             (Inr (True, of_ascii ''File deleted''),
              w\<lparr>output_files := (output_files w)(filename := None),
                effects := effects w @ [RemoveFile filename]\<rparr>)))"


section \<open>Worlds and runtimes for concrete runs\<close>

text \<open>
  The state after \<open>tts_service = TTSService()\<close>, on a disk with the given model directories
  and output files.
\<close>

definition initial_world :: "(pystr \<rightharpoonup> pystr list) \<Rightarrow> (pystr \<rightharpoonup> nat list) \<Rightarrow> nat world" where
  "initial_world dirs files =
     \<lparr>models = Map.empty, current_model_key = None, model_dirs = dirs, output_files = files,
      effects = []\<rparr>"

text \<open>A disk on which only the English model has been downloaded.\<close>

definition en_on_disk :: "pystr \<rightharpoonup> pystr list" where
  "en_on_disk = [of_ascii ''models/kani-tts-400m-en'' \<mapsto> [of_ascii ''config.json'']]"

text \<open>
  A runtime for concrete runs: construction gives the handle 7, every chunk becomes two
  samples, and the saved file holds one byte, the number of samples.
\<close>

definition toy_runtime :: "nat runtime" where
  "toy_runtime =
     \<lparr>construct = (\<lambda>path. Inr 7),
      synthesize = (\<lambda>model chunk speaker_id. Inr [0, 0]),
      save_audio = (\<lambda>model samples. Inr [length samples]),
      uuid_hex8 = of_ascii ''0a1b2c3d''\<rparr>"

text \<open>
  The stitched audio in the words of the specification: a single chunk as it is, otherwise
  the chunks in order with the silence between consecutive chunks and none after the last.
\<close>

fun with_pauses :: "'a list \<Rightarrow> 'a list list \<Rightarrow> 'a list" where
  "with_pauses silence [] = []"
| "with_pauses silence [audio] = audio"
| "with_pauses silence (audio # next_audio # rest) =
     audio @ silence @ with_pauses silence (next_audio # rest)"

section \<open>Shapes of strings\<close>

text \<open>A string that is not empty and neither starts nor ends with whitespace.\<close>

definition trimmed :: "pystr \<Rightarrow> bool" where
  "trimmed s \<longleftrightarrow> s \<noteq> [] \<and> \<not> py_isspace (hd s) \<and> \<not> py_isspace (last s)"

text \<open>
  A string in which every whitespace character is one space (code point 32) that is not
  followed by another whitespace character.
\<close>

fun spaced :: "pystr \<Rightarrow> bool" where
  "spaced [] = True"
| "spaced (c # cs) =
     ((py_isspace c \<longrightarrow> c = 32 \<and> (cs = [] \<or> \<not> py_isspace (hd cs))) \<and> spaced cs)"

text \<open>
  A string has a break after the class \<open>P\<close> when some character of the class is directly
  followed by whitespace: the places where \<open>re_split_after P\<close> cuts.
\<close>

fun has_break :: "(nat \<Rightarrow> bool) \<Rightarrow> pystr \<Rightarrow> bool" where
  "has_break P (a # b # cs) = (P a \<and> py_isspace b \<or> has_break P (b # cs))"
| "has_break P cs = False"

text \<open>
  The normalised text in the words of the specification: every run of whitespace is
  collapsed to a single space, and the result is trimmed.
\<close>

fun collapse_ws :: "pystr \<Rightarrow> pystr" where
  "collapse_ws [] = []"
| "collapse_ws [a] = [if py_isspace a then 32 else a]"
| "collapse_ws (a # b # cs) =
     (if py_isspace a \<and> py_isspace b then collapse_ws (b # cs)
      else (if py_isspace a then 32 else a) # collapse_ws (b # cs))"

definition normalize_ws :: "pystr \<Rightarrow> pystr" where
  "normalize_ws s = py_strip (collapse_ws s)"

section \<open>Facts about the tables\<close>

lemma MODELS_en:
  "MODELS (of_ascii ''en'') =
     Some \<lparr>name = of_ascii ''English'',
           repo_id = of_ascii ''nineninesix/kani-tts-400m-en'',
           local_path = of_ascii ''models/kani-tts-400m-en''\<rparr>"
  by (simp add: MODELS_def of_ascii_def)

lemma en_downloaded: "is_model_downloaded en_on_disk (of_ascii ''en'')"
  unfolding is_model_downloaded_def MODELS_en
  by (simp add: en_on_disk_def essential_patterns_def py_endswith_def of_ascii_def)

lemma MODELS_fr: "MODELS (of_ascii ''fr'') = None"
  by (simp add: MODELS_def of_ascii_def)

lemma nothing_downloaded: "\<not> is_model_downloaded Map.empty k"
  by (simp add: is_model_downloaded_def split: option.splits)

section \<open>The chunker on blank input\<close>

lemma py_split_from_blank: "\<forall>c\<in>set s. py_isspace c \<Longrightarrow> py_split_from [] s = []"
  by (induction s) auto

text \<open>
  C10. For an input that is empty or consists of whitespace only, \<open>split_into_sentences\<close>
  returns the list whose only element is the empty string.
\<close>

theorem split_into_sentences_blank:
  assumes "\<forall>c\<in>set text. py_isspace c"
  shows "split_into_sentences text = [[]]"
  using py_split_from_blank [OF assms]
  by (simp add: split_into_sentences_def py_split_def re_split_after_def py_strip_def)

theorem split_into_sentences_blank_witness:
  "py_isspace 32 \<and> py_isspace 9 \<and> py_isspace 10 \<and> split_into_sentences [32, 9, 10] = [[]]"
proof -
  have h: "\<forall>c\<in>set [32, 9, 10]. py_isspace c"
    by (simp add: py_isspace_def)
  show ?thesis
    using h split_into_sentences_blank [OF h] by simp
qed

section \<open>The pieces of a regular expression split\<close>

lemma py_join_Cons: "xs \<noteq> [] \<Longrightarrow> py_join sep (x # xs) = x @ sep @ py_join sep xs"
  by (cases xs) simp_all

lemma py_join_append:
  "xs \<noteq> [] \<Longrightarrow> ys \<noteq> [] \<Longrightarrow> py_join sep (xs @ ys) = py_join sep xs @ sep @ py_join sep ys"
  by (induction sep xs rule: py_join.induct) (simp_all add: py_join_Cons)

lemma py_join_mid:
  assumes "X \<noteq> []"
  shows "py_join sep (a @ X @ r) = py_join sep (a @ [py_join sep X] @ r)"
proof (cases "a = []")
  case True
  then show ?thesis using assms by (cases "r = []") (simp_all add: py_join_append py_join_Cons)
next
  case False
  then show ?thesis
    using assms by (cases "r = []") (simp_all add: py_join_append py_join_Cons)
qed

lemma re_split_from_nonempty: "re_split_from P prev cur cs \<noteq> []"
  by (induction P prev cur cs rule: re_split_from.induct) auto

lemma re_split_from_cut:
  "py_isspace c \<Longrightarrow> (case prev of None \<Rightarrow> False | Some p \<Rightarrow> P p) \<Longrightarrow>
   re_split_from P prev cur (c # cs) =
     cur # re_split_from P (Some (last (c # takeWhile py_isspace cs))) []
             (dropWhile py_isspace cs)"
  by simp

lemma re_split_from_keep:
  "\<not> (py_isspace c \<and> (case prev of None \<Rightarrow> False | Some p \<Rightarrow> P p)) \<Longrightarrow>
   re_split_from P prev cur (c # cs) = re_split_from P (Some c) (cur @ [c]) cs"
  by auto

lemma spaced_space:
  "spaced (c # cs) \<Longrightarrow> py_isspace c \<Longrightarrow>
   c = 32 \<and> dropWhile py_isspace cs = cs \<and> takeWhile py_isspace cs = []"
  by (cases cs) auto

lemma spaced_append: "spaced (a @ b) \<Longrightarrow> spaced a \<and> spaced b"
  by (induction a) (auto simp: hd_append split: if_splits)

lemma join_re_split_from:
  "spaced cs \<Longrightarrow> py_join [32] (re_split_from P prev cur cs) = cur @ cs"
proof (induction P prev cur cs rule: re_split_from.induct)
  case (1 P prev cur)
  then show ?case by simp
next
  case (2 P prev cur c cs)
  show ?case
  proof (cases "py_isspace c \<and> (case prev of None \<Rightarrow> False | Some p \<Rightarrow> P p)")
    case True
    then have sp: "c = 32" "dropWhile py_isspace cs = cs" "takeWhile py_isspace cs = []"
      using spaced_space [OF "2.prems"] by simp_all
    have "spaced (dropWhile py_isspace cs)" using "2.prems" sp by simp
    from "2.IH"(1) [OF True this]
    have "py_join [32] (re_split_from P (Some c) [] cs) = cs" by (simp add: sp)
    moreover have "re_split_from P prev cur (c # cs) = cur # re_split_from P (Some c) [] cs"
      using True by (simp add: sp)
    ultimately show ?thesis
      by (simp add: sp py_join_Cons re_split_from_nonempty del: re_split_from.simps)
  next
    case False
    have "spaced cs" using "2.prems" by simp
    from "2.IH"(2) [OF False this] show ?thesis
      unfolding re_split_from_keep [OF False] by simp
  qed
qed

lemma pieces_trimmed:
  shows "\<forall>x. P x \<longrightarrow> \<not> py_isspace x \<Longrightarrow> spaced cs \<Longrightarrow>
    (cur \<noteq> [] \<longrightarrow> prev = Some (last cur) \<and> \<not> py_isspace (hd cur)) \<Longrightarrow>
    (cur = [] \<longrightarrow> cs \<noteq> [] \<and> \<not> py_isspace (hd cs)) \<Longrightarrow>
    \<not> py_isspace (last (cur @ cs)) \<Longrightarrow>
    \<forall>p\<in>set (re_split_from P prev cur cs). trimmed p"
proof (induction P prev cur cs rule: re_split_from.induct)
  case (1 P prev cur)
  then show ?case by (auto simp: trimmed_def)
next
  case (2 P prev cur c cs)
  note Pn = "2.prems"(1)
  note sp = "2.prems"(2)
  note inv1 = "2.prems"(3)
  note inv2 = "2.prems"(4)
  note lst = "2.prems"(5)
  show ?case
  proof (cases "py_isspace c \<and> (case prev of None \<Rightarrow> False | Some p \<Rightarrow> P p)")
    case True
    then have c: "py_isspace c" by simp
    have s3: "c = 32" "dropWhile py_isspace cs = cs" "takeWhile py_isspace cs = []"
      using spaced_space [OF sp c] by simp_all
    have cur: "cur \<noteq> []" using inv2 c by auto
    then have "prev = Some (last cur)" "\<not> py_isspace (hd cur)" using inv1 by simp_all
    moreover from this True have "P (last cur)" by simp
    ultimately have tc: "trimmed cur" using cur Pn by (auto simp: trimmed_def)
    have cs: "cs \<noteq> []" using lst c by auto
    then have hdcs: "\<not> py_isspace (hd cs)" using sp c by auto
    have "\<forall>p\<in>set (re_split_from P (Some (last (c # takeWhile py_isspace cs))) []
              (dropWhile py_isspace cs)). trimmed p"
    proof (rule "2.IH"(1) [OF True Pn])
      show "spaced (dropWhile py_isspace cs)" using sp s3 by simp
      show "[] \<noteq> [] \<longrightarrow>
        Some (last (c # takeWhile py_isspace cs)) = Some (last []) \<and> \<not> py_isspace (hd [])"
        by simp
      show "[] = [] \<longrightarrow> dropWhile py_isspace cs \<noteq> [] \<and> \<not> py_isspace (hd (dropWhile py_isspace cs))"
        using cs hdcs s3 by simp
      show "\<not> py_isspace (last ([] @ dropWhile py_isspace cs))"
        using lst cs s3 by simp
    qed
    moreover have "re_split_from P prev cur (c # cs) =
        cur # re_split_from P (Some (last (c # takeWhile py_isspace cs))) []
                (dropWhile py_isspace cs)"
      using True by (simp add: re_split_from_cut)
    ultimately show ?thesis using tc by (simp del: re_split_from.simps)
  next
    case False
    have "\<forall>p\<in>set (re_split_from P (Some c) (cur @ [c]) cs). trimmed p"
    proof (rule "2.IH"(2) [OF False Pn])
      show "spaced cs" using sp by simp
      show "cur @ [c] \<noteq> [] \<longrightarrow>
        Some c = Some (last (cur @ [c])) \<and> \<not> py_isspace (hd (cur @ [c]))"
        using inv1 inv2 by (cases cur) auto
      show "cur @ [c] = [] \<longrightarrow> cs \<noteq> [] \<and> \<not> py_isspace (hd cs)" by simp
      show "\<not> py_isspace (last ((cur @ [c]) @ cs))" using lst by simp
    qed
    then show ?thesis unfolding re_split_from_keep [OF False] .
  qed
qed

lemma pieces_spaced:
  "spaced (cur @ cs) \<Longrightarrow> \<forall>p\<in>set (re_split_from P prev cur cs). spaced p"
proof (induction P prev cur cs rule: re_split_from.induct)
  case (1 P prev cur)
  then show ?case by simp
next
  case (2 P prev cur c cs)
  have parts: "spaced cur" "spaced (c # cs)" using spaced_append [OF "2.prems"] by simp_all
  show ?case
  proof (cases "py_isspace c \<and> (case prev of None \<Rightarrow> False | Some p \<Rightarrow> P p)")
    case True
    then have s3: "dropWhile py_isspace cs = cs" "takeWhile py_isspace cs = []"
      using spaced_space [OF parts(2)] by simp_all
    have "spaced ([] @ dropWhile py_isspace cs)" using parts(2) s3 by simp
    moreover have "re_split_from P prev cur (c # cs) =
        cur # re_split_from P (Some (last (c # takeWhile py_isspace cs))) []
                (dropWhile py_isspace cs)"
      using True by (simp add: re_split_from_cut)
    ultimately show ?thesis
      using "2.IH"(1) [OF True] parts(1) by (simp del: re_split_from.simps)
  next
    case False
    have "spaced ((cur @ [c]) @ cs)" using "2.prems" by simp
    from "2.IH"(2) [OF False this] show ?thesis
      unfolding re_split_from_keep [OF False] .
  qed
qed

lemma has_break_snoc:
  "has_break P (cur @ [c]) \<longleftrightarrow> has_break P cur \<or> (cur \<noteq> [] \<and> P (last cur) \<and> py_isspace c)"
  by (induction P cur rule: has_break.induct) auto

lemma pieces_no_break:
  "\<not> has_break P cur \<Longrightarrow> (cur \<noteq> [] \<longrightarrow> prev = Some (last cur)) \<Longrightarrow>
   \<forall>p\<in>set (re_split_from P prev cur cs). \<not> has_break P p"
proof (induction P prev cur cs rule: re_split_from.induct)
  case (1 P prev cur)
  then show ?case by simp
next
  case (2 P prev cur c cs)
  show ?case
  proof (cases "py_isspace c \<and> (case prev of None \<Rightarrow> False | Some p \<Rightarrow> P p)")
    case True
    have "\<forall>p\<in>set (re_split_from P (Some (last (c # takeWhile py_isspace cs))) []
              (dropWhile py_isspace cs)). \<not> has_break P p"
      by (rule "2.IH"(1) [OF True]) simp_all
    moreover have "re_split_from P prev cur (c # cs) =
        cur # re_split_from P (Some (last (c # takeWhile py_isspace cs))) []
                (dropWhile py_isspace cs)"
      using True by (simp add: re_split_from_cut)
    ultimately show ?thesis using "2.prems"(1) by (simp del: re_split_from.simps)
  next
    case False
    have "\<not> has_break P (cur @ [c])"
      using False "2.prems" by (auto simp: has_break_snoc)
    then have "\<forall>p\<in>set (re_split_from P (Some c) (cur @ [c]) cs). \<not> has_break P p"
      by (rule "2.IH"(2) [OF False]) simp
    then show ?thesis unfolding re_split_from_keep [OF False] .
  qed
qed

section \<open>The normalised text\<close>

lemma py_split_from_words:
  "\<forall>c\<in>set w. \<not> py_isspace c \<Longrightarrow>
   \<forall>x\<in>set (py_split_from w s). x \<noteq> [] \<and> (\<forall>c\<in>set x. \<not> py_isspace c)"
proof (induction s arbitrary: w)
  case Nil
  then show ?case by auto
next
  case (Cons a s)
  have e: "\<forall>x\<in>set (py_split_from [] s). x \<noteq> [] \<and> (\<forall>c\<in>set x. \<not> py_isspace c)"
    using Cons.IH [of "[]"] by simp
  show ?case
  proof (cases "py_isspace a")
    case True
    then show ?thesis using e Cons.prems by auto
  next
    case False
    then have "\<forall>c\<in>set (w @ [a]). \<not> py_isspace c" using Cons.prems by simp
    from Cons.IH [OF this] False show ?thesis by simp
  qed
qed

lemma word_spaced: "\<forall>c\<in>set x. \<not> py_isspace c \<Longrightarrow> spaced x"
  by (induction x) auto

lemma spaced_word_space:
  "\<forall>c\<in>set x. \<not> py_isspace c \<Longrightarrow> spaced r \<Longrightarrow> r \<noteq> [] \<Longrightarrow> \<not> py_isspace (hd r) \<Longrightarrow>
   spaced (x @ 32 # r)"
  by (induction x) auto

lemma join_words_good:
  "ws \<noteq> [] \<Longrightarrow> \<forall>x\<in>set ws. x \<noteq> [] \<and> (\<forall>c\<in>set x. \<not> py_isspace c) \<Longrightarrow>
   trimmed (py_join [32] ws) \<and> spaced (py_join [32] ws)"
proof (induction ws rule: induct_list012)
  case 1
  then show ?case by simp
next
  case (2 x)
  then show ?case by (auto simp: trimmed_def word_spaced)
next
  case (3 x y zs)
  then have J: "trimmed (py_join [32] (y # zs))" "spaced (py_join [32] (y # zs))" by simp_all
  have x: "x \<noteq> []" "\<forall>c\<in>set x. \<not> py_isspace c" using "3.prems" by simp_all
  have "spaced (x @ 32 # py_join [32] (y # zs))"
    using spaced_word_space [OF x(2) J(2)] J(1) by (simp add: trimmed_def)
  moreover have "trimmed (x @ 32 # py_join [32] (y # zs))"
    using x J(1) by (auto simp: trimmed_def)
  ultimately show ?case by simp
qed

lemma py_strip_trimmed: "trimmed s \<Longrightarrow> py_strip s = s"
proof -
  assume t: "trimmed s"
  then have "dropWhile py_isspace s = s" by (cases s) (auto simp: trimmed_def)
  moreover have "dropWhile py_isspace (rev s) = rev s"
    using t by (cases "rev s") (auto simp: trimmed_def hd_rev [symmetric])
  ultimately show ?thesis by (simp add: py_strip_def)
qed

lemma isspace_32: "py_isspace 32"
  by (simp add: py_isspace_def)

lemma py_split_from_collapse: "py_split_from w (collapse_ws s) = py_split_from w s"
proof (induction s arbitrary: w rule: collapse_ws.induct)
  case 1
  then show ?case by simp
next
  case (2 a)
  then show ?case by (simp add: isspace_32)
next
  case (3 a b cs)
  show ?case
  proof (cases "py_isspace a \<and> py_isspace b")
    case True
    then show ?thesis using "3.IH"(1) [OF True, of w] "3.IH"(1) [OF True, of "[]"] by simp
  next
    case False
    then show ?thesis
      using "3.IH"(2) [OF False, of w] "3.IH"(2) [OF False, of "[]"]
        "3.IH"(2) [OF False, of "w @ [a]"]
      by (simp add: isspace_32)
  qed
qed

lemma py_split_from_all_blank:
  "\<forall>c\<in>set u. py_isspace c \<Longrightarrow> py_split_from w u = (if w = [] then [] else [w])"
  by (induction u arbitrary: w) auto

lemma py_split_from_blank_tail:
  "\<forall>c\<in>set u. py_isspace c \<Longrightarrow> py_split_from w (t @ u) = py_split_from w t"
proof (induction t arbitrary: w)
  case Nil
  then show ?case by (simp add: py_split_from_all_blank)
next
  case (Cons a t)
  then show ?case by simp
qed

lemma py_split_from_dropWhile:
  "py_split_from [] (dropWhile py_isspace t) = py_split_from [] t"
  by (induction t) auto

lemma rstrip_decompose:
  "rev (dropWhile P (rev d)) @ rev (takeWhile P (rev d)) = d"
proof -
  have "rev (takeWhile P (rev d) @ dropWhile P (rev d)) = d" by simp
  then show ?thesis by (simp only: rev_append)
qed

lemma py_split_strip: "py_split (py_strip t) = py_split t"
proof -
  let ?d = "dropWhile py_isspace t"
  have "\<forall>c\<in>set (rev (takeWhile py_isspace (rev ?d))). py_isspace c"
    by (auto dest: set_takeWhileD)
  then have "py_split_from [] (rev (dropWhile py_isspace (rev ?d)) @ rev (takeWhile py_isspace (rev ?d))) =
      py_split_from [] (rev (dropWhile py_isspace (rev ?d)))"
    by (rule py_split_from_blank_tail)
  then have "py_split_from [] (rev (dropWhile py_isspace (rev ?d))) = py_split_from [] ?d"
    by (simp only: rstrip_decompose)
  then show ?thesis by (simp add: py_split_def py_strip_def py_split_from_dropWhile)
qed

lemma py_split_normalize: "py_split (normalize_ws s) = py_split s"
  by (simp add: normalize_ws_def py_split_strip) (simp add: py_split_def py_split_from_collapse)

lemma hd_collapse_ws: "\<not> py_isspace b \<Longrightarrow> hd (collapse_ws (b # cs)) = b"
  by (cases cs) auto

lemma collapse_ws_nonempty: "collapse_ws (b # cs) \<noteq> []"
  by (induction "b # cs" arbitrary: b cs rule: collapse_ws.induct) auto

lemma spaced_collapse: "spaced (collapse_ws s)"
proof (induction s rule: collapse_ws.induct)
  case 1
  then show ?case by simp
next
  case (2 a)
  then show ?case by simp
next
  case (3 a b cs)
  show ?case
  proof (cases "py_isspace a \<and> py_isspace b")
    case True
    then show ?thesis using "3.IH"(1) by simp
  next
    case False
    then show ?thesis
      using "3.IH"(2) hd_collapse_ws [of b cs] by auto
  qed
qed

lemma strip_good:
  assumes "spaced t" and "py_strip t \<noteq> []"
  shows "trimmed (py_strip t) \<and> spaced (py_strip t)"
proof -
  let ?d = "dropWhile py_isspace t"
  let ?e = "dropWhile py_isspace (rev ?d)"
  have e: "?e \<noteq> []" using assms(2) by (simp add: py_strip_def)
  have "spaced (takeWhile py_isspace t @ ?d)" using assms(1) by simp
  then have "spaced ?d" using spaced_append by blast
  then have "spaced (rev ?e @ rev (takeWhile py_isspace (rev ?d)))"
    by (simp only: rstrip_decompose)
  then have sp: "spaced (rev ?e)" using spaced_append by blast
  have "?d \<noteq> []"
  proof
    assume z: "?d = []"
    have "?e = []" unfolding z by simp
    with e show False by simp
  qed
  then have hd_d: "\<not> py_isspace (hd ?d)" by (rule hd_dropWhile)
  have "last ?e = last (rev ?d)"
    using e by (metis last_appendR takeWhile_dropWhile_id)
  then have "hd (rev ?e) = hd ?d"
    using e \<open>?d \<noteq> []\<close> by (simp add: hd_rev last_rev)
  moreover have "\<not> py_isspace (hd ?e)" using e by (rule hd_dropWhile)
  then have "\<not> py_isspace (last (rev ?e))" using e by (simp add: last_rev)
  ultimately show ?thesis
    using sp e hd_d by (simp add: py_strip_def trimmed_def)
qed

lemma join_split_good:
  "spaced s \<Longrightarrow> \<forall>c\<in>set w. \<not> py_isspace c \<Longrightarrow> w @ s \<noteq> [] \<Longrightarrow>
   \<not> py_isspace (last (w @ s)) \<Longrightarrow> (w = [] \<longrightarrow> \<not> py_isspace (hd s)) \<Longrightarrow>
   py_join [32] (py_split_from w s) = w @ s"
proof (induction s arbitrary: w)
  case Nil
  then show ?case by simp
next
  case (Cons a s)
  show ?case
  proof (cases "py_isspace a")
    case True
    have a: "a = 32" and w: "w \<noteq> []" using Cons.prems True by auto
    have s: "s \<noteq> []" using Cons.prems(4) True by auto
    then have hs: "\<not> py_isspace (hd s)" using Cons.prems(1) True by auto
    have "py_join [32] (py_split_from [] s) = [] @ s"
      using Cons.prems(1,4) s hs by (intro Cons.IH) auto
    moreover from this s have "py_split_from [] s \<noteq> []" by auto
    ultimately show ?thesis using True a w by (simp add: py_join_Cons)
  next
    case False
    have "py_join [32] (py_split_from (w @ [a]) s) = (w @ [a]) @ s"
      using Cons.prems False by (intro Cons.IH) auto
    then show ?thesis using False by simp
  qed
qed

lemma join_split_normalize: "py_join [32] (py_split s) = normalize_ws s"
proof (cases "normalize_ws s = []")
  case True
  then have "py_split s = []"
    using py_split_normalize [of s] by (simp add: py_split_def)
  then show ?thesis using True by simp
next
  case False
  then have g: "trimmed (normalize_ws s)" "spaced (normalize_ws s)"
    using strip_good [OF spaced_collapse, of s] by (simp_all add: normalize_ws_def)
  have "py_join [32] (py_split_from [] (normalize_ws s)) = [] @ normalize_ws s"
    using g by (intro join_split_good) (auto simp: trimmed_def)
  then show ?thesis using py_split_normalize [of s] by (simp add: py_split_def)
qed

section \<open>The chunker keeps the text\<close>

lemma trimmed_glue: "trimmed a \<Longrightarrow> trimmed b \<Longrightarrow> trimmed (a @ 32 # b)"
  by (auto simp: trimmed_def)

lemma pack_parts_join:
  "\<forall>p\<in>set parts. trimmed p \<Longrightarrow> cur = [] \<or> trimmed cur \<Longrightarrow>
   pack_parts acc cur parts = (chunks', cur') \<Longrightarrow>
   \<exists>Y. chunks' @ (if cur' \<noteq> [] then [cur'] else []) = acc @ Y \<and>
       py_join [32] Y = py_join [32] ((if cur \<noteq> [] then [cur] else []) @ parts) \<and>
       (Y = [] \<longrightarrow> cur = [] \<and> parts = [])"
proof (induction parts arbitrary: acc cur)
  case Nil
  then show ?case by auto
next
  case (Cons p rest)
  have p: "trimmed p" and rest: "\<forall>p\<in>set rest. trimmed p" using Cons.prems(1) by simp_all
  show ?case
  proof (cases "length cur + length p + 1 \<le> MAX_CHUNK_CHARS")
    case True
    define cur2 where "cur2 = (if cur \<noteq> [] then cur @ 32 # p else p)"
    have t2: "trimmed cur2"
      using p Cons.prems(2) by (auto simp: cur2_def trimmed_glue)
    have eq: "(if cur \<noteq> [] then py_strip (cur @ [32] @ p) else p) = cur2"
      using t2 by (auto simp: cur2_def py_strip_trimmed)
    have run: "pack_parts acc cur2 rest = (chunks', cur')"
      using Cons.prems(3) True eq by simp
    have "cur2 = [] \<or> trimmed cur2" using t2 by simp
    from Cons.IH [OF rest this run] obtain Y where
      Y: "chunks' @ (if cur' \<noteq> [] then [cur'] else []) = acc @ Y"
         "py_join [32] Y = py_join [32] ((if cur2 \<noteq> [] then [cur2] else []) @ rest)"
         "Y = [] \<longrightarrow> cur2 = [] \<and> rest = []"
      by blast
    have ne: "cur2 \<noteq> []" using t2 by (simp add: trimmed_def)
    have "py_join [32] (cur2 # rest) = py_join [32] ((if cur \<noteq> [] then [cur] else []) @ p # rest)"
      by (cases rest) (auto simp: cur2_def)
    with Y ne show ?thesis by auto
  next
    case False
    have run: "pack_parts (acc @ (if cur \<noteq> [] then [cur] else [])) p rest = (chunks', cur')"
      using Cons.prems(3) False by (auto split: if_splits)
    have "p = [] \<or> trimmed p" using p by simp
    from Cons.IH [OF rest this run] obtain Y where
      Y: "chunks' @ (if cur' \<noteq> [] then [cur'] else []) =
            (acc @ (if cur \<noteq> [] then [cur] else [])) @ Y"
         "py_join [32] Y = py_join [32] ((if p \<noteq> [] then [p] else []) @ rest)"
         "Y = [] \<longrightarrow> p = [] \<and> rest = []"
      by blast
    have pne: "p \<noteq> []" using p by (simp add: trimmed_def)
    then have Yne: "Y \<noteq> []" using Y(3) by auto
    let ?Y = "(if cur \<noteq> [] then [cur] else []) @ Y"
    have "chunks' @ (if cur' \<noteq> [] then [cur'] else []) = acc @ ?Y" using Y(1) by simp
    moreover have "py_join [32] ?Y =
        py_join [32] ((if cur \<noteq> [] then [cur] else []) @ p # rest)"
      using Y(2) pne Yne by (auto simp: py_join_Cons)
    moreover have "?Y \<noteq> []" using Yne by simp
    ultimately show ?thesis by blast
  qed
qed

lemma chunk_sentences_join:
  "\<forall>s\<in>set ss. trimmed s \<and> spaced s \<Longrightarrow>
   py_join [32] (chunk_sentences acc ss) = py_join [32] (acc @ ss)"
proof (induction ss arbitrary: acc)
  case Nil
  then show ?case by simp
next
  case (Cons s rest)
  have s: "trimmed s" "spaced s" and rest: "\<forall>s\<in>set rest. trimmed s \<and> spaced s"
    using Cons.prems by simp_all
  show ?case
  proof (cases "length s \<le> MAX_CHUNK_CHARS")
    case True
    then show ?thesis using Cons.IH [OF rest, of "acc @ [s]"] by simp
  next
    case False
    let ?parts = "re_split_after clause_sep s"
    have pt: "\<forall>p\<in>set ?parts. trimmed p"
      unfolding re_split_after_def
      using s by (intro pieces_trimmed) (auto simp: clause_sep_def py_isspace_def trimmed_def)
    have pj: "py_join [32] ?parts = s"
      unfolding re_split_after_def using join_re_split_from [OF s(2)] by simp
    have pn: "?parts \<noteq> []" by (simp add: re_split_after_def re_split_from_nonempty)
    obtain chunks' cur' where run: "pack_parts acc [] ?parts = (chunks', cur')"
      by (cases "pack_parts acc [] ?parts") auto
    from pack_parts_join [OF pt _ run] obtain Y where
      Y: "chunks' @ (if cur' \<noteq> [] then [cur'] else []) = acc @ Y"
         "py_join [32] Y = py_join [32] ?parts" "Y \<noteq> []"
      using pn by auto
    have "(if cur' \<noteq> [] then chunks' @ [cur'] else chunks') = acc @ Y"
      using Y(1) by (auto split: if_splits)
    then have "chunk_sentences acc (s # rest) = chunk_sentences (acc @ Y) rest"
      using False run by simp
    also have "py_join [32] \<dots> = py_join [32] (acc @ Y @ rest)"
      using Cons.IH [OF rest, of "acc @ Y"] by simp
    also have "\<dots> = py_join [32] (acc @ [s] @ rest)"
      using py_join_mid [OF Y(3), of "[32]" acc rest] Y(2) pj by simp
    finally show ?thesis by simp
  qed
qed

lemma normalized_good:
  assumes "py_split text \<noteq> []"
  shows "trimmed (py_join [32] (py_split text)) \<and> spaced (py_join [32] (py_split text))"
proof -
  have "\<forall>x\<in>set (py_split text). x \<noteq> [] \<and> (\<forall>c\<in>set x. \<not> py_isspace c)"
    unfolding py_split_def by (rule py_split_from_words) simp
  with assms show ?thesis by (rule join_words_good)
qed

lemma sentences_good:
  assumes "trimmed t" and "spaced t"
  shows "\<forall>s\<in>set (re_split_after sentence_end t). trimmed s \<and> spaced s"
proof -
  have "\<forall>s\<in>set (re_split_from sentence_end None [] t). trimmed s"
    using assms
    by (intro pieces_trimmed) (auto simp: sentence_end_def py_isspace_def trimmed_def)
  moreover have "\<forall>s\<in>set (re_split_from sentence_end None [] t). spaced s"
    using assms by (intro pieces_spaced) simp
  ultimately show ?thesis by (simp add: re_split_after_def)
qed

lemma filter_strip_id:
  "\<forall>s\<in>set ss. trimmed s \<Longrightarrow> map py_strip (filter (\<lambda>s. py_strip s \<noteq> []) ss) = ss"
  by (induction ss) (auto simp: py_strip_trimmed trimmed_def)

lemma split_into_sentences_empty:
  "py_split text = [] \<Longrightarrow> split_into_sentences text = [[]]"
  by (simp add: split_into_sentences_def re_split_after_def py_strip_def)

lemma split_into_sentences_unfold:
  assumes "py_split text \<noteq> []"
  shows "split_into_sentences text =
     (if chunk_sentences [] (re_split_after sentence_end (py_join [32] (py_split text))) \<noteq> []
      then chunk_sentences [] (re_split_after sentence_end (py_join [32] (py_split text)))
      else [py_join [32] (py_split text)])"
proof -
  let ?t = "py_join [32] (py_split text)"
  have "\<forall>s\<in>set (re_split_after sentence_end ?t). trimmed s"
    using sentences_good normalized_good [OF assms] by blast
  then have "map py_strip (filter (\<lambda>s. py_strip s \<noteq> []) (re_split_after sentence_end ?t)) =
      re_split_after sentence_end ?t"
    by (rule filter_strip_id)
  then show ?thesis by (simp add: split_into_sentences_def Let_def)
qed

lemma chunks_join:
  assumes "py_split text \<noteq> []"
  shows "py_join [32] (chunk_sentences [] (re_split_after sentence_end (py_join [32] (py_split text)))) =
     py_join [32] (py_split text)"
proof -
  let ?t = "py_join [32] (py_split text)"
  have good: "trimmed ?t" "spaced ?t" using normalized_good [OF assms] by simp_all
  have "py_join [32] (chunk_sentences [] (re_split_after sentence_end ?t)) =
      py_join [32] ([] @ re_split_after sentence_end ?t)"
    using sentences_good [OF good] by (rule chunk_sentences_join)
  also have "\<dots> = ?t"
    using join_re_split_from [OF good(2), of sentence_end None "[]"]
    by (simp add: re_split_after_def)
  finally show ?thesis .
qed

lemma split_join:
  "py_join [32] (split_into_sentences text) = normalize_ws text"
proof (cases "py_split text = []")
  case True
  then show ?thesis
    using join_split_normalize [of "text"] by (simp add: split_into_sentences_empty)
next
  case False
  show ?thesis
    unfolding split_into_sentences_unfold [OF False]
    using chunks_join [OF False] join_split_normalize [of "text"] by simp
qed


lemma split_nonempty: "split_into_sentences text \<noteq> []"
  by (simp add: split_into_sentences_def Let_def)

text \<open>
  C1. For every text, \<open>split_into_sentences\<close> returns a non-empty list of chunks, and
  the chunks joined with single spaces are the whitespace-normalised text: the text with
  every run of whitespace collapsed to one space and then trimmed, which is what the
  first line of the function, \<open>" ".join(text.split())\<close>, computes.
\<close>

theorem split_into_sentences_join:
  "split_into_sentences text \<noteq> [] \<and>
   py_join [32] (split_into_sentences text) = normalize_ws text \<and>
   normalize_ws text = py_join [32] (py_split text)"
  using split_nonempty [of "text"] split_join [of "text"] join_split_normalize [of "text"]
  by simp

theorem split_into_sentences_join_witness:
  "split_into_sentences (of_ascii ''Hello world.  This is a test! '') =
     [of_ascii ''Hello world.'', of_ascii ''This is a test!''] \<and>
   normalize_ws (of_ascii ''Hello world.  This is a test! '') =
     of_ascii ''Hello world. This is a test!''"
proof -
  have "split_into_sentences (of_ascii ''Hello world.  This is a test! '') =
     [of_ascii ''Hello world.'', of_ascii ''This is a test!'']"
    by (simp add: split_into_sentences_def of_ascii_def py_split_def py_isspace_def
        re_split_after_def py_strip_def sentence_end_def MAX_CHUNK_CHARS_def)
  then show ?thesis
    using split_into_sentences_join [of "of_ascii ''Hello world.  This is a test! ''"]
    by (simp add: of_ascii_def)
qed


section \<open>The chunker keeps the budget\<close>

lemma length_py_strip: "length (py_strip s) \<le> length s"
proof -
  have "length (dropWhile py_isspace (rev (dropWhile py_isspace s))) \<le>
      length (rev (dropWhile py_isspace s))"
    by (rule length_dropWhile_le)
  also have "\<dots> \<le> length s" by (simp add: length_dropWhile_le)
  finally show ?thesis by (simp add: py_strip_def)
qed

lemma pack_parts_ok:
  "\<forall>p\<in>set parts. \<not> has_break clause_sep p \<Longrightarrow>
   \<forall>c\<in>set acc. length c \<le> MAX_CHUNK_CHARS \<or> \<not> has_break clause_sep c \<Longrightarrow>
   length cur \<le> MAX_CHUNK_CHARS \<or> \<not> has_break clause_sep cur \<Longrightarrow>
   pack_parts acc cur parts = (chunks', cur') \<Longrightarrow>
   (\<forall>c\<in>set chunks'. length c \<le> MAX_CHUNK_CHARS \<or> \<not> has_break clause_sep c) \<and>
   (length cur' \<le> MAX_CHUNK_CHARS \<or> \<not> has_break clause_sep cur')"
proof (induction parts arbitrary: acc cur)
  case Nil
  then show ?case by auto
next
  case (Cons p rest)
  have p: "\<not> has_break clause_sep p" and rest: "\<forall>p\<in>set rest. \<not> has_break clause_sep p"
    using Cons.prems(1) by simp_all
  show ?case
  proof (cases "length cur + length p + 1 \<le> MAX_CHUNK_CHARS")
    case True
    let ?cur2 = "if cur \<noteq> [] then py_strip (cur @ [32] @ p) else p"
    have "length (py_strip (cur @ [32] @ p)) \<le> MAX_CHUNK_CHARS"
      using True length_py_strip [of "cur @ [32] @ p"] by simp
    then have ok2: "length ?cur2 \<le> MAX_CHUNK_CHARS \<or> \<not> has_break clause_sep ?cur2"
      using p by simp
    have run: "pack_parts acc ?cur2 rest = (chunks', cur')"
      using Cons.prems(4) True by simp
    from Cons.IH [OF rest Cons.prems(2) ok2 run] show ?thesis .
  next
    case False
    let ?acc2 = "if cur \<noteq> [] then acc @ [cur] else acc"
    have acc2: "\<forall>c\<in>set ?acc2. length c \<le> MAX_CHUNK_CHARS \<or> \<not> has_break clause_sep c"
      using Cons.prems(2,3) by auto
    have okp: "length p \<le> MAX_CHUNK_CHARS \<or> \<not> has_break clause_sep p" using p by simp
    have run: "pack_parts ?acc2 p rest = (chunks', cur')"
      using Cons.prems(4) False by simp
    from Cons.IH [OF rest acc2 okp run] show ?thesis .
  qed
qed

lemma chunk_sentences_ok:
  "\<forall>c\<in>set acc. length c \<le> MAX_CHUNK_CHARS \<or> \<not> has_break clause_sep c \<Longrightarrow>
   \<forall>c\<in>set (chunk_sentences acc ss). length c \<le> MAX_CHUNK_CHARS \<or> \<not> has_break clause_sep c"
proof (induction ss arbitrary: acc)
  case Nil
  then show ?case by simp
next
  case (Cons s rest)
  show ?case
  proof (cases "length s \<le> MAX_CHUNK_CHARS")
    case True
    have "\<forall>c\<in>set (acc @ [s]). length c \<le> MAX_CHUNK_CHARS \<or> \<not> has_break clause_sep c"
      using Cons.prems True by auto
    from Cons.IH [OF this] True show ?thesis by simp
  next
    case False
    let ?parts = "re_split_after clause_sep s"
    have pb: "\<forall>p\<in>set ?parts. \<not> has_break clause_sep p"
      unfolding re_split_after_def by (rule pieces_no_break) simp_all
    obtain chunks' cur' where run: "pack_parts acc [] ?parts = (chunks', cur')"
      by (cases "pack_parts acc [] ?parts") auto
    have "length ([]::pystr) \<le> MAX_CHUNK_CHARS \<or> \<not> has_break clause_sep []" by simp
    from pack_parts_ok [OF pb Cons.prems this run]
    have "\<forall>c\<in>set (if cur' \<noteq> [] then chunks' @ [cur'] else chunks').
        length c \<le> MAX_CHUNK_CHARS \<or> \<not> has_break clause_sep c"
      by auto
    from Cons.IH [OF this] False run show ?thesis by simp
  qed
qed

lemma chunks_bounded:
  "\<forall>c\<in>set (split_into_sentences text).
     length c \<le> MAX_CHUNK_CHARS \<or> \<not> has_break clause_sep c"
proof (cases "py_split text = []")
  case True
  then show ?thesis by (simp add: split_into_sentences_empty)
next
  case False
  let ?t = "py_join [32] (py_split text)"
  let ?chunks = "chunk_sentences [] (re_split_after sentence_end ?t)"
  have ok: "\<forall>c\<in>set ?chunks. length c \<le> MAX_CHUNK_CHARS \<or> \<not> has_break clause_sep c"
    by (rule chunk_sentences_ok) simp
  have "?chunks \<noteq> []"
  proof
    assume "?chunks = []"
    then have "?t = []" using chunks_join [OF False] by simp
    then show False using normalized_good [OF False] by (simp add: trimmed_def)
  qed
  then show ?thesis
    unfolding split_into_sentences_unfold [OF False] using ok by simp
qed

lemma has_break_join:
  "x \<noteq> [] \<Longrightarrow> P (last x) \<Longrightarrow> py_isspace a \<Longrightarrow> has_break P (x @ a # y)"
  by (induction P x rule: has_break.induct) auto

lemma re_split_from_unbroken:
  "\<not> has_break P (cur @ s) \<Longrightarrow> (cur \<noteq> [] \<longrightarrow> prev = Some (last cur)) \<Longrightarrow>
   (cur = [] \<longrightarrow> prev = None) \<Longrightarrow> re_split_from P prev cur s = [cur @ s]"
proof (induction s arbitrary: prev cur)
  case Nil
  then show ?case by simp
next
  case (Cons a s)
  have keep: "\<not> (py_isspace a \<and> (case prev of None \<Rightarrow> False | Some p \<Rightarrow> P p))"
  proof (cases "cur = []")
    case True
    then show ?thesis using Cons.prems(3) by simp
  next
    case False
    then have "prev = Some (last cur)" using Cons.prems(2) by simp
    then show ?thesis using has_break_join [OF False, of P a s] Cons.prems(1) by auto
  qed
  have "re_split_from P (Some a) (cur @ [a]) s = [(cur @ [a]) @ s]"
    using Cons.prems(1) by (intro Cons.IH) auto
  then show ?case unfolding re_split_from_keep [OF keep] by simp
qed

lemma split_into_sentences_unbroken:
  assumes "trimmed s" and "spaced s"
    and "\<not> has_break sentence_end s" and "\<not> has_break clause_sep s"
  shows "split_into_sentences s = [s]"
proof -
  have ne: "s \<noteq> []" using assms(1) by (simp add: trimmed_def)
  have "py_join [32] (py_split_from [] s) = [] @ s"
    using assms(1,2) by (intro join_split_good) (auto simp: trimmed_def)
  then have j: "py_join [32] (py_split s) = s" by (simp add: py_split_def)
  have st: "py_strip s = s" using assms(1) by (rule py_strip_trimmed)
  have r1: "re_split_after sentence_end s = [s]"
    using assms(3) by (simp add: re_split_after_def re_split_from_unbroken)
  have r2: "re_split_after clause_sep s = [s]"
    using assms(4) by (simp add: re_split_after_def re_split_from_unbroken)
  have "chunk_sentences [] [s] = [s]"
    using ne by (simp add: r2)
  then show ?thesis
    using ne by (simp add: split_into_sentences_def j r1 st)
qed

lemma no_class_no_break: "\<forall>c\<in>set s. \<not> P c \<Longrightarrow> \<not> has_break P s"
  by (induction P s rule: has_break.induct) auto


text \<open>
  C6. Every chunk that \<open>split_into_sentences\<close> returns has at most \<open>MAX_CHUNK_CHARS\<close>
  (200) characters, or it contains no clause separator (comma, semicolon, en dash or em
  dash) that is followed by whitespace, so that the secondary split could not divide it;
  such a chunk is kept whole, since the chunks joined with single spaces are always the
  whole normalised text.
\<close>

theorem chunk_length_bound:
  "(\<forall>c\<in>set (split_into_sentences text).
      length c \<le> MAX_CHUNK_CHARS \<or> \<not> has_break clause_sep c) \<and>
   py_join [32] (split_into_sentences text) = normalize_ws text"
  using chunks_bounded [of "text"] split_join [of "text"] by simp

text \<open>
  A sentence of two words of 100 letters each, 201 characters with the space and without
  any punctuation, is returned as one oversized chunk.
\<close>

theorem chunk_length_bound_witness:
  "split_into_sentences (replicate 100 97 @ 32 # replicate 100 98) =
     [replicate 100 97 @ 32 # replicate 100 98] \<and>
   MAX_CHUNK_CHARS < length (replicate 100 (97::nat) @ 32 # replicate 100 98) \<and>
   \<not> has_break clause_sep (replicate 100 97 @ 32 # replicate 100 98)"
proof -
  let ?s = "replicate 100 97 @ 32 # replicate 100 (98::nat)"
  have "spaced (replicate 100 98)" by (rule word_spaced) (simp add: py_isspace_def)
  then have "spaced ?s" by (rule spaced_word_space [rotated]) (simp_all add: py_isspace_def)
  moreover have "trimmed ?s" by (simp add: trimmed_def py_isspace_def)
  moreover have "\<not> has_break sentence_end ?s"
    by (rule no_class_no_break) (auto simp: sentence_end_def)
  moreover have "\<not> has_break clause_sep ?s"
    by (rule no_class_no_break) (auto simp: clause_sep_def)
  ultimately have "split_into_sentences ?s = [?s]"
    by (intro split_into_sentences_unbroken)
  then show ?thesis
    using chunk_length_bound [of ?s] by (simp add: MAX_CHUNK_CHARS_def)
qed


section \<open>Rounding to floats\<close>

text \<open>The values of the rounding at the numbers that the concrete runs below meet.\<close>

lemma bitlen_1: "bitlen 1 = 1"
  by (simp add: compute_bitlen)

lemma ilog2_1: "ilog2 1 = 0"
  by (simp add: ilog2_def bitlen_1)

lemma to_double_1: "to_double 1 = 1"
  by (simp add: to_double_def ilog2_1 round_half_even_def power_int_minus)

lemma ilog2_100: "ilog2 100 = 6"
  by (simp add: ilog2_def compute_bitlen)

lemma to_double_100: "to_double 100 = 100"
  by (simp add: to_double_def ilog2_100 round_half_even_def power_int_minus)

lemma py_round1_100: "py_round1 100 = 100"
  by (simp add: py_round1_def round_half_even_def to_double_100)

lemma ilog2_9_4: "ilog2 (9 / 4) = 1"
  by (simp add: ilog2_def compute_bitlen)

lemma to_double_9_4: "to_double (9 / 4) = 9 / 4"
  by (simp add: to_double_def ilog2_9_4 round_half_even_def power_int_minus)

lemma ilog2_225: "ilog2 225 = 7"
  by (simp add: ilog2_def compute_bitlen)

lemma to_double_225: "to_double 225 = 225"
  by (simp add: to_double_def ilog2_225 round_half_even_def power_int_minus)

text \<open>
  For 23 of 80 bytes the exact percentage is 28.75. The floats give the quotient
  \<open>0.2875\<close> rounded down, the product 28.749999999999996, and \<open>round(x, 1)\<close> takes it to
  28.7.
\<close>

lemma ilog2_23_80: "ilog2 (23 / 80) = - 2"
  by (simp add: ilog2_def compute_bitlen)

lemma to_double_23_80: "to_double (23 / 80) = 2589569785738035 / 9007199254740992"
  by (simp add: to_double_def ilog2_23_80 round_half_even_def power_int_minus Let_def)

lemma ilog2_prod: "ilog2 (64739244643450875 / 2251799813685248) = 4"
  by (simp add: ilog2_def compute_bitlen)

lemma mul_23_80:
  "py_float_mul (2589569785738035 / 9007199254740992) 100 = 8092405580431359 / 281474976710656"
  by (simp add: py_float_mul_def to_double_def ilog2_prod round_half_even_def power_int_minus Let_def)

lemma progress_percent_23_80:
  "progress_percent ((new_progress k)\<lparr>total_size := 80, downloaded_size := 23\<rparr>) =
     Inr (8092405580431359 / 281474976710656)"
  using mul_23_80
  by (simp add: progress_percent_def py_truediv_def to_double_23_80)

lemma ilog2_287: "ilog2 (287 / 10) = 4"
  by (simp add: ilog2_def compute_bitlen)

lemma py_round1_23_80:
  "py_round1 (8092405580431359 / 281474976710656) = 8078331831595827 / 281474976710656"
  by (simp add: py_round1_def to_double_def ilog2_287 round_half_even_def power_int_minus Let_def)

text \<open>
  Rounding keeps a number non-negative, and a number of at least \<open>2^1024\<close> stays at least
  \<open>2^1024\<close>: the division overflows.
\<close>

lemma round_half_even_floor: "\<lfloor>y\<rfloor> \<le> round_half_even y"
  by (simp add: round_half_even_def Let_def)

lemma round_half_even_ge:
  assumes "of_int n \<le> y"
  shows "n \<le> round_half_even y"
proof -
  have "n \<le> \<lfloor>y\<rfloor>" using assms by (simp add: le_floor_iff)
  then show ?thesis using round_half_even_floor [of y] by linarith
qed

lemma round_half_even_nonneg: "0 \<le> y \<Longrightarrow> 0 \<le> round_half_even y"
  using round_half_even_ge [of 0 y] by simp

lemma to_double_nonneg: "0 \<le> x \<Longrightarrow> 0 \<le> to_double x"
  by (simp add: to_double_def Let_def round_half_even_nonneg)

lemma ilog2_ge:
  assumes "2 ^ n \<le> x"
  shows "int n \<le> ilog2 x"
proof -
  have "(1::real) \<le> 2 ^ n" by simp
  then have x1: "1 \<le> x" using assms by linarith
  have "(2::int) ^ n \<le> \<lfloor>x\<rfloor>" using assms by (simp add: le_floor_iff)
  moreover have "nat (int n + 1) - 1 = n" by simp
  ultimately have "int n + 1 \<le> bitlen \<lfloor>x\<rfloor>"
    unfolding bitlen_ge_iff_power by simp
  then show ?thesis using x1 by (simp add: ilog2_def)
qed

lemma ilog2_lower:
  assumes "1 \<le> x"
  shows "2 powi (ilog2 x) \<le> x"
proof -
  have pos: "0 < \<lfloor>x\<rfloor>" using assms by simp
  have b: "1 \<le> bitlen \<lfloor>x\<rfloor>" using pos by (simp add: bitlen_ge_iff_power)
  have "(2::int) ^ nat (bitlen \<lfloor>x\<rfloor> - 1) \<le> \<lfloor>x\<rfloor>" using bitlen_bounds [OF pos] by simp
  then have "(2::real) ^ nat (bitlen \<lfloor>x\<rfloor> - 1) \<le> x" by (simp add: le_floor_iff)
  moreover have "(2::real) powi (bitlen \<lfloor>x\<rfloor> - 1) = 2 ^ nat (bitlen \<lfloor>x\<rfloor> - 1)"
    using b by (simp add: power_int_def)
  ultimately show ?thesis using assms by (simp add: ilog2_def)
qed

lemma to_double_overflow:
  assumes "2 ^ 1024 \<le> x"
  shows "2 ^ 1024 \<le> to_double x"
proof -
  have x1: "1 \<le> x" using assms by simp
  then have x0: "x \<noteq> 0" "\<bar>x\<bar> = x" by simp_all
  define e where "e = ilog2 x"
  have e: "1024 \<le> e" using ilog2_ge [OF assms] by (simp add: e_def)
  define u :: real where "u = 2 powi (e - 52)"
  have u: "0 < u" by (simp add: u_def)
  have mx: "max (e - 52) (- 1074) = e - 52" using e by simp
  have split: "(2::real) powi e = 2 ^ 52 * u"
    using power_int_add [of "2::real" 52 "e - 52"] by (simp add: u_def)
  have "2 ^ 52 * u \<le> x" using ilog2_lower [OF x1] split by (simp add: e_def)
  then have "of_int (2 ^ 52) \<le> x / u" using u by (simp add: pos_le_divide_eq)
  then have "2 ^ 52 \<le> round_half_even (x / u)" by (rule round_half_even_ge)
  then have "(2::real) ^ 52 \<le> of_int (round_half_even (x / u))"
    by (metis of_int_le_iff of_int_numeral of_int_power)
  then have A: "2 ^ 52 * u \<le> of_int (round_half_even (x / u)) * u"
    using u by (simp add: mult_right_mono)
  have "(2::real) powi 1024 \<le> 2 powi e" using e by (intro power_int_increasing) simp_all
  then have "(2::real) ^ 1024 \<le> 2 powi e" by (simp only: power_int_numeral)
  also have "\<dots> = 2 ^ 52 * u" by (rule split)
  also note A
  also have "of_int (round_half_even (x / u)) * u = to_double x"
    using x0 mx by (simp add: to_double_def u_def e_def Let_def)
  finally show ?thesis .
qed

lemma py_truediv_overflow:
  assumes "0 < b" and "2 ^ 1024 * b \<le> a"
  shows "py_truediv a b = Inl OverflowError"
proof -
  have "(2::real) ^ 1024 * real_of_int b \<le> real_of_int a"
    using assms(2) by (metis of_int_le_iff of_int_mult of_int_numeral of_int_power)
  then have "2 ^ 1024 \<le> real_of_int a / real_of_int b"
    using assms(1) by (simp add: pos_le_divide_eq)
  then have "2 ^ 1024 \<le> to_double (real_of_int a / real_of_int b)"
    by (rule to_double_overflow)
  then have "2 ^ 1024 \<le> \<bar>to_double (real_of_int a / real_of_int b)\<bar>" by linarith
  then show ?thesis using assms(1) by (simp add: py_truediv_def Let_def)
qed

text \<open>
  A quotient below \<open>2^1023\<close> does not overflow: the rounding moves a number by at most one
  unit in the last place, which is at most the number itself or 1.
\<close>

lemma round_half_even_le: "real_of_int (round_half_even y) \<le> y + 1"
proof -
  have "round_half_even y \<le> \<lfloor>y\<rfloor> + 1" by (simp add: round_half_even_def Let_def)
  then have "real_of_int (round_half_even y) \<le> real_of_int \<lfloor>y\<rfloor> + 1"
    by (metis of_int_le_iff of_int_add of_int_1)
  then show ?thesis using of_int_floor_le [of y] by linarith
qed

lemma ilog2_nonpos: "x < 1 \<Longrightarrow> ilog2 x \<le> 0"
  using bitlen_nonneg [of "\<lceil>1 / x\<rceil> - 1"] by (simp add: ilog2_def)

lemma to_double_le_double:
  assumes "0 < x"
  shows "to_double x \<le> max (2 * x) (x + 1)"
proof -
  define u :: real where "u = 2 powi (max (ilog2 x - 52) (- 1074))"
  have u: "0 < u" by (simp add: u_def)
  have td: "to_double x = of_int (round_half_even (x / u)) * u"
    using assms by (simp add: to_double_def u_def Let_def)
  have "of_int (round_half_even (x / u)) * u \<le> (x / u + 1) * u"
    using round_half_even_le [of "x / u"] u by (simp add: mult_right_mono)
  also have "\<dots> = x + u" using u by (simp add: field_simps)
  finally have bound: "to_double x \<le> x + u" using td by simp
  show ?thesis
  proof (cases "1 \<le> x")
    case True
    have e0: "0 \<le> ilog2 x" using ilog2_ge [of 0 x] True by simp
    then have "u = 2 powi (ilog2 x - 52)" by (simp add: u_def max_def)
    also have "\<dots> \<le> 2 powi (ilog2 x)" by (intro power_int_increasing) simp_all
    also have "\<dots> \<le> x" by (rule ilog2_lower [OF True])
    finally show ?thesis using bound by simp
  next
    case False
    then have "ilog2 x \<le> 0" by (simp add: ilog2_nonpos)
    then have "u \<le> 2 powi 0"
      unfolding u_def by (intro power_int_increasing) simp_all
    then show ?thesis using bound by simp
  qed
qed

lemma py_truediv_fits:
  assumes "0 \<le> a" and "0 < b" and "a < 2 ^ 1023 * b"
  shows "py_truediv a b = Inr (to_double (real_of_int a / real_of_int b))"
proof -
  let ?x = "real_of_int a / real_of_int b"
  have x0: "0 \<le> ?x" using assms(1,2) by simp
  have "real_of_int a < 2 ^ 1023 * real_of_int b"
    using assms(3) by (metis of_int_less_iff of_int_mult of_int_numeral of_int_power)
  then have x1: "?x < 2 ^ 1023" using assms(2) by (simp add: pos_divide_less_eq)
  have "to_double ?x < 2 ^ 1024"
  proof (cases "?x = 0")
    case True
    then show ?thesis by (simp add: to_double_def)
  next
    case False
    then have "0 < ?x" using x0 by linarith
    then have "to_double ?x \<le> max (2 * ?x) (?x + 1)" by (rule to_double_le_double)
    moreover have "2 * ?x < 2 ^ 1024" using x1 by simp
    moreover have "?x + 1 < 2 ^ 1024" using x1 by simp
    ultimately show ?thesis by (simp add: max_def split: if_splits)
  qed
  moreover have "0 \<le> to_double ?x" using x0 by (rule to_double_nonneg)
  ultimately have "\<not> 2 ^ 1024 \<le> \<bar>to_double ?x\<bar>" by linarith
  then show ?thesis using assms(2) by (simp add: py_truediv_def Let_def)
qed

section \<open>Download progress\<close>

lemma py_truediv_1_1: "py_truediv 1 1 = Inr 1"
  by (simp add: py_truediv_def to_double_1)

lemma progress_percent_full:
  "progress_percent ((new_progress k)\<lparr>status := st, downloaded_size := 1, total_size := 1\<rparr>) = Inr 100"
  by (simp add: progress_percent_def py_truediv_1_1 py_float_mul_def to_double_100)

text \<open>
  C4, as the code has it. For non-negative \<open>total_size\<close> and \<open>downloaded_size\<close> whose
  quotient fits a float (the division does not raise \<open>OverflowError\<close>, which is so
  whenever \<open>downloaded_size < 2^1023 * total_size\<close>, see \<open>py_truediv_fits\<close>),
  \<open>progress_percent\<close> returns a value between 0 and 100; when \<open>total_size\<close> is 0 the value
  is 0 and nothing is divided, so no \<open>ZeroDivisionError\<close> is raised.
\<close>

theorem progress_percent_bounded:
  assumes "0 \<le> total_size p" and "0 \<le> downloaded_size p"
    and "py_truediv (downloaded_size p) (total_size p) \<noteq> Inl OverflowError"
  shows "\<exists>pc. progress_percent p = Inr pc \<and> 0 \<le> pc \<and> pc \<le> 100 \<and>
           (total_size p = 0 \<longrightarrow> pc = 0)"
proof (cases "total_size p = 0")
  case True
  then show ?thesis by (simp add: progress_percent_def)
next
  case False
  let ?q = "to_double (real_of_int (downloaded_size p) / real_of_int (total_size p))"
  have q: "py_truediv (downloaded_size p) (total_size p) = Inr ?q"
    using assms(3) False by (simp add: py_truediv_def Let_def split: if_splits)
  have "0 \<le> ?q" using assms(1,2) by (intro to_double_nonneg) simp
  then have "0 \<le> py_float_mul ?q 100"
    unfolding py_float_mul_def by (intro to_double_nonneg) simp
  then show ?thesis using False q by (simp add: progress_percent_def)
qed

theorem progress_percent_bounded_witness:
  "0 \<le> total_size ((new_progress [])\<lparr>total_size := 4, downloaded_size := 9\<rparr>) \<and>
   0 \<le> downloaded_size ((new_progress [])\<lparr>total_size := 4, downloaded_size := 9\<rparr>) \<and>
   py_truediv 9 4 = Inr (9 / 4) \<and>
   progress_percent ((new_progress [])\<lparr>total_size := 4, downloaded_size := 9\<rparr>) = Inr 100"
proof -
  let ?p = "(new_progress [])\<lparr>total_size := 4, downloaded_size := 9\<rparr>"
  have d: "py_truediv 9 4 = Inr (9 / 4)"
    by (simp add: py_truediv_def to_double_9_4)
  have h: "0 \<le> total_size ?p" "0 \<le> downloaded_size ?p"
    "py_truediv (downloaded_size ?p) (total_size ?p) \<noteq> Inl OverflowError"
    using d by simp_all
  show ?thesis
    using progress_percent_bounded [OF h] d
    by (simp add: progress_percent_def py_float_mul_def to_double_225)
qed

text \<open>
  Without the condition on the quotient the claim fails: Python integers are unbounded, and
  for \<open>downloaded_size = 2 * 10^308\<close> and \<open>total_size = 1\<close> the division raises
  \<open>OverflowError\<close>, so that the property has no value at all.
\<close>

theorem progress_percent_counterexample:
  "0 \<le> total_size ((new_progress [])\<lparr>total_size := 1, downloaded_size := 2 * 10 ^ 308\<rparr>) \<and>
   0 \<le> downloaded_size ((new_progress [])\<lparr>total_size := 1, downloaded_size := 2 * 10 ^ 308\<rparr>) \<and>
   progress_percent ((new_progress [])\<lparr>total_size := 1, downloaded_size := 2 * 10 ^ 308\<rparr>) =
     Inl OverflowError"
proof -
  have "py_truediv (2 * 10 ^ 308) 1 = Inl OverflowError"
    by (rule py_truediv_overflow) simp_all
  then show ?thesis by (simp add: progress_percent_def)
qed

text \<open>
  C5. When the model is already downloaded, the generator yields exactly one dictionary and
  does nothing else: the dictionary has status \<open>completed\<close>, sizes 1 of 1 and 100 percent;
  no dictionary with status \<open>downloading\<close> is yielded, the hub is not asked and no transfer
  is started.
\<close>

theorem already_downloaded_one_snapshot:
  assumes "is_model_downloaded dirs k"
  shows "\<exists>m. MODELS k = Some m \<and>
           download_model_with_progress hub dirs k =
             [Yield [(''model_key'', JStr k),
                     (''model_name'', JStr (name m)),
                     (''total_size'', JInt 1),
                     (''downloaded_size'', JInt 1),
                     (''progress_percent'', JFloat 100),
                     (''current_file'', JStr []),
                     (''status'', JStr (of_ascii ''completed'')),
                     (''error_message'', JNone),
                     (''files_total'', JInt 0),
                     (''files_downloaded'', JInt 0)]]"
proof (cases "MODELS k")
  case None
  with assms show ?thesis by (simp add: is_model_downloaded_def)
next
  case (Some m)
  let ?p = "(new_progress k)\<lparr>status := of_ascii ''completed'', downloaded_size := 1,
              total_size := 1\<rparr>"
  have "progress_percent ?p = Inr 100"
    by (rule progress_percent_full)
  then have "yield_progress ?p =
      Yield [(''model_key'', JStr k),
             (''model_name'', JStr (name m)),
             (''total_size'', JInt 1),
             (''downloaded_size'', JInt 1),
             (''progress_percent'', JFloat 100),
             (''current_file'', JStr []),
             (''status'', JStr (of_ascii ''completed'')),
             (''error_message'', JNone),
             (''files_total'', JInt 0),
             (''files_downloaded'', JInt 0)]"
    using Some by (simp add: yield_progress_def to_dict_def py_round1_100 new_progress_def)
  with Some assms show ?thesis
    by (simp add: download_model_with_progress_def Let_def)
qed

theorem already_downloaded_one_snapshot_witness:
  "is_model_downloaded en_on_disk (of_ascii ''en'') \<and>
   download_model_with_progress
       \<lparr>repo_info = Inr [Some 10], polls = [(5, 1)], transfer_result = None\<rparr>
       en_on_disk (of_ascii ''en'') =
     [Yield [(''model_key'', JStr (of_ascii ''en'')),
             (''model_name'', JStr (of_ascii ''English'')),
             (''total_size'', JInt 1),
             (''downloaded_size'', JInt 1),
             (''progress_percent'', JFloat 100),
             (''current_file'', JStr []),
             (''status'', JStr (of_ascii ''completed'')),
             (''error_message'', JNone),
             (''files_total'', JInt 0),
             (''files_downloaded'', JInt 0)]]"
  using already_downloaded_one_snapshot [OF en_downloaded,
      of "\<lparr>repo_info = Inr [Some 10], polls = [(5, 1)], transfer_result = None\<rparr>"]
    en_downloaded
  by (simp add: MODELS_en)

section \<open>The audio endpoints\<close>

lemma py_startswith_iff: "py_startswith s p \<longleftrightarrow> (\<exists>b. s = p @ b)"
  by (induction s p rule: py_startswith.induct) auto

lemma py_contains_iff: "py_contains s sub \<longleftrightarrow> (\<exists>a b. s = a @ sub @ b)"
proof (induction s)
  case Nil
  then show ?case by auto
next
  case (Cons c cs)
  show ?case
  proof
    assume "py_contains (c # cs) sub"
    then consider "py_startswith (c # cs) sub" | "py_contains cs sub" by auto
    then show "\<exists>a b. c # cs = a @ sub @ b"
    proof cases
      case 1
      then obtain b where "c # cs = sub @ b" by (auto simp: py_startswith_iff)
      then have "c # cs = [] @ sub @ b" by simp
      then show ?thesis by blast
    next
      case 2
      then obtain a b where "cs = a @ sub @ b" using Cons.IH by blast
      then have "c # cs = (c # a) @ sub @ b" by simp
      then show ?thesis by blast
    qed
  next
    assume "\<exists>a b. c # cs = a @ sub @ b"
    then obtain a b where ab: "c # cs = a @ sub @ b" by blast
    show "py_contains (c # cs) sub"
    proof (cases a)
      case Nil
      with ab have "py_startswith (c # cs) sub" by (auto simp: py_startswith_iff)
      then show ?thesis by simp
    next
      case (Cons a0 a')
      with ab have "cs = a' @ sub @ b" by simp
      then have "py_contains cs sub" using Cons.IH by blast
      then show ?thesis by simp
    qed
  qed
qed

lemma py_contains_single: "py_contains s [x] \<longleftrightarrow> x \<in> set s"
  by (induction s) auto

text \<open>
  C9. A filename that contains \<open>..\<close> or the path separator \<open>/\<close> is rejected by \<open>get_audio\<close>
  and by \<open>delete_audio\<close> with the HTTP error 400 \<open>Invalid filename\<close>, and the world is left
  as it was: no file operation is recorded and no file is changed.
\<close>

theorem traversal_filename_rejected:
  assumes "(\<exists>a b. filename = a @ of_ascii ''..'' @ b) \<or> of_char CHR ''/'' \<in> set filename"
  shows "get_audio w filename = (Inl (HTTPException 400 (of_ascii ''Invalid filename'')), w) \<and>
         delete_audio w filename = (Inl (HTTPException 400 (of_ascii ''Invalid filename'')), w)"
proof -
  have "py_contains filename (of_ascii ''/'') \<longleftrightarrow> of_char CHR ''/'' \<in> set filename"
    by (simp add: py_contains_single of_ascii_def)
  moreover have "py_contains filename (of_ascii ''..'') \<longleftrightarrow>
      (\<exists>a b. filename = a @ of_ascii ''..'' @ b)"
    by (rule py_contains_iff)
  ultimately have "py_contains filename (of_ascii ''..'') \<or> py_contains filename (of_ascii ''/'')"
    using assms by blast
  then show ?thesis by (auto simp: get_audio_def delete_audio_def)
qed

theorem traversal_filename_rejected_witness:
  "((\<exists>a b. of_ascii ''a..wav'' = a @ of_ascii ''..'' @ b) \<or>
      of_char CHR ''/'' \<in> set (of_ascii ''a..wav'')) \<and>
   get_audio (initial_world Map.empty [of_ascii ''a..wav'' \<mapsto> [1, 2]]) (of_ascii ''a..wav'') =
     (Inl (HTTPException 400 (of_ascii ''Invalid filename'')),
      initial_world Map.empty [of_ascii ''a..wav'' \<mapsto> [1, 2]]) \<and>
   delete_audio (initial_world Map.empty [of_ascii ''a..wav'' \<mapsto> [1, 2]]) (of_ascii ''a..wav'') =
     (Inl (HTTPException 400 (of_ascii ''Invalid filename'')),
      initial_world Map.empty [of_ascii ''a..wav'' \<mapsto> [1, 2]])"
proof -
  have "of_ascii ''a..wav'' = of_ascii ''a'' @ of_ascii ''..'' @ of_ascii ''wav''"
    by (simp add: of_ascii_def)
  then have h: "(\<exists>a b. of_ascii ''a..wav'' = a @ of_ascii ''..'' @ b) \<or>
      of_char CHR ''/'' \<in> set (of_ascii ''a..wav'')"
    by blast
  show ?thesis
    using h traversal_filename_rejected [OF h] by blast
qed


section \<open>Stitching the audio of the chunks\<close>

lemma silence_len_value: "silence_len = 3307"
  by (simp add: silence_len_def SAMPLE_RATE_def)

lemma with_pauses_Cons:
  "rest \<noteq> [] \<Longrightarrow> with_pauses s (a # rest) = a @ s @ with_pauses s rest"
  by (cases rest) simp_all

lemma add_parts_concat:
  "n = i + length xs \<Longrightarrow> concat (add_parts s n i acc xs) = concat acc @ with_pauses s xs"
proof (induction xs arbitrary: i acc)
  case Nil
  then show ?case by simp
next
  case (Cons a rest)
  have n: "n = Suc i + length rest" using Cons.prems by simp
  show ?case
  proof (cases "rest = []")
    case True
    with Cons.prems show ?thesis by simp
  next
    case False
    then have "int i < int n - 1" using Cons.prems by (cases rest) auto
    then show ?thesis
      using Cons.IH [OF n, of "acc @ [a, s]"] False by (simp add: with_pauses_Cons)
  qed
qed

lemma add_parts_nonempty: "acc \<noteq> [] \<or> xs \<noteq> [] \<Longrightarrow> add_parts s n i acc xs \<noteq> []"
  by (induction xs arbitrary: i acc) auto

lemma length_with_pauses:
  "xs \<noteq> [] \<Longrightarrow>
   length (with_pauses s xs) = sum_list (map length xs) + (length xs - 1) * length s"
  by (induction s xs rule: with_pauses.induct) auto

text \<open>
  C2. For a non-empty list of audio chunks, the stitching step of \<open>generate\<close> succeeds; its
  result is the chunks in order with the silence between consecutive chunks only (a single
  chunk as it is, nothing after the last chunk), so it has the summed length of the chunks
  plus one silence for each of the \<open>N - 1\<close> gaps; the silence has
  \<open>int(SAMPLE_RATE * 0.15) = 3307\<close> samples.
\<close>

theorem stitch_length:
  assumes "audio_arrays \<noteq> []"
  shows "\<exists>combined_audio.
           stitch audio_arrays = Inr combined_audio \<and>
           combined_audio = with_pauses (replicate silence_len 0) audio_arrays \<and>
           length combined_audio =
             sum_list (map length audio_arrays) + (length audio_arrays - 1) * silence_len \<and>
           silence_len = 3307"
proof (cases "length audio_arrays = 1")
  case True
  then obtain a where "audio_arrays = [a]" by (cases audio_arrays) auto
  then show ?thesis by (simp add: stitch_def silence_len_value)
next
  case False
  let ?s = "replicate silence_len (0::real)"
  let ?parts = "add_parts ?s (length audio_arrays) 0 [] audio_arrays"
  have "?parts \<noteq> []" using assms by (simp add: add_parts_nonempty)
  moreover have "concat ?parts = with_pauses ?s audio_arrays"
    using add_parts_concat [of "length audio_arrays" 0 audio_arrays ?s "[]"] by simp
  ultimately have "stitch audio_arrays = Inr (with_pauses ?s audio_arrays)"
    using False by (simp add: stitch_def np_concatenate_def)
  then show ?thesis
    using length_with_pauses [OF assms, of ?s] by (simp add: silence_len_value)
qed

theorem stitch_length_witness:
  "[[1, 2], [3 :: real]] \<noteq> [] \<and>
   stitch [[1, 2], [3]] = Inr ([1, 2] @ replicate 3307 0 @ [3]) \<and>
   stitch [[1, 2]] = Inr [1, 2]"
proof -
  have h: "[[1, 2], [3 :: real]] \<noteq> []" by simp
  have "stitch [[1, 2]] = Inr [1, 2]" by (simp add: stitch_def)
  then show ?thesis
    using h stitch_length [OF h] by auto
qed

section \<open>The registry of loaded models\<close>

text \<open>
  A resident model is not constructed again: the call only marks the key as current.
\<close>

lemma load_model_resident:
  assumes "MODELS k \<noteq> None" and "is_model_downloaded (model_dirs w) k"
    and "k \<in> dom (models w)"
  shows "load_model rt w k = (Inr True, w\<lparr>current_model_key := Some k\<rparr>)"
  using assms by (auto simp: load_model_def)

text \<open>After a call that returned, the key is resident and current.\<close>

lemma load_model_returned:
  assumes "load_model rt w k = (Inr loaded, w1)"
  shows "k \<in> dom (models w1) \<and> current_model_key w1 = Some k \<and>
         model_dirs w1 = model_dirs w"
  using assms
  by (auto simp: load_model_def Let_def split: option.splits if_splits sum.splits)

text \<open>
  C3. For a valid, downloaded model key, when a call of \<open>load_model\<close> has returned, a second
  call right after it returns \<open>True\<close> and leaves the world exactly as the first call left
  it: the registry holds the same handle for the key, and no construction is recorded.
\<close>

theorem load_model_twice:
  assumes "MODELS k \<noteq> None" and "is_model_downloaded (model_dirs w) k"
    and "load_model rt w k = (Inr loaded, w1)"
  shows "load_model rt w1 k = (Inr True, w1) \<and> (\<exists>model. models w1 k = Some model)"
proof -
  have "k \<in> dom (models w1) \<and> current_model_key w1 = Some k \<and> model_dirs w1 = model_dirs w"
    using load_model_returned [OF assms(3)] by simp
  then show ?thesis
    using load_model_resident [of k w1 rt] assms(1,2) by auto
qed

theorem load_model_twice_witness:
  "MODELS (of_ascii ''en'') \<noteq> None \<and>
   is_model_downloaded (model_dirs (initial_world en_on_disk Map.empty)) (of_ascii ''en'') \<and>
   load_model toy_runtime (initial_world en_on_disk Map.empty) (of_ascii ''en'') =
     (Inr True,
      (initial_world en_on_disk Map.empty)
        \<lparr>effects := [Construct (of_ascii ''models/kani-tts-400m-en'')],
         models := [of_ascii ''en'' \<mapsto> 7],
         current_model_key := Some (of_ascii ''en'')\<rparr>) \<and>
   load_model toy_runtime
     ((initial_world en_on_disk Map.empty)
        \<lparr>effects := [Construct (of_ascii ''models/kani-tts-400m-en'')],
         models := [of_ascii ''en'' \<mapsto> 7],
         current_model_key := Some (of_ascii ''en'')\<rparr>) (of_ascii ''en'') =
     (Inr True,
      (initial_world en_on_disk Map.empty)
        \<lparr>effects := [Construct (of_ascii ''models/kani-tts-400m-en'')],
         models := [of_ascii ''en'' \<mapsto> 7],
         current_model_key := Some (of_ascii ''en'')\<rparr>)"
proof -
  have h1: "MODELS (of_ascii ''en'') \<noteq> None" by (simp add: MODELS_en)
  have h2: "is_model_downloaded (model_dirs (initial_world en_on_disk Map.empty)) (of_ascii ''en'')"
    by (simp add: initial_world_def en_downloaded)
  have h3: "load_model toy_runtime (initial_world en_on_disk Map.empty) (of_ascii ''en'') =
     (Inr True,
      (initial_world en_on_disk Map.empty)
        \<lparr>effects := [Construct (of_ascii ''models/kani-tts-400m-en'')],
         models := [of_ascii ''en'' \<mapsto> 7],
         current_model_key := Some (of_ascii ''en'')\<rparr>)"
    using h2 by (simp add: load_model_def MODELS_en toy_runtime_def initial_world_def)
  show ?thesis
    using h1 h2 h3 load_model_twice [OF h1 h2 h3] by simp
qed

section \<open>Generation for a model that is not downloaded\<close>

lemma py_strip_Nil: "py_strip [] = []"
  by (simp add: py_strip_def)

lemma split_Hi: "split_into_sentences (of_ascii ''Hi.'') = [of_ascii ''Hi.'']"
  by (simp add: split_into_sentences_def of_ascii_def py_split_def py_isspace_def
      re_split_after_def py_strip_def sentence_end_def MAX_CHUNK_CHARS_def)

lemma Hi_nonempty: "of_ascii ''Hi.'' \<noteq> []"
  by (simp add: of_ascii_def)

lemma py_strip_Hi: "py_strip (of_ascii ''Hi.'') = of_ascii ''Hi.''"
  by (simp add: of_ascii_def py_strip_def py_isspace_def)

text \<open>
  C7, as the code has it. For a text that is not blank and a valid model key whose model is
  neither downloaded nor resident in the registry, \<open>generate\<close> raises the
  \<open>RuntimeError\<close> of \<open>load_model\<close>, \<open>Model <key> is not downloaded\<close>, and leaves the world
  as it was: no file is written, no effect is recorded and the registry is unchanged.
\<close>

theorem generate_not_downloaded:
  assumes "MODELS k \<noteq> None" and "\<not> is_model_downloaded (model_dirs w) k"
    and "py_strip text \<noteq> []" and "k \<notin> dom (models w)"
  shows "generate rt w text k speaker =
           (Inl (RuntimeError (of_ascii ''Model '' @ k @ of_ascii '' is not downloaded'')), w)"
proof -
  have "text \<noteq> []" using assms(3) by (auto simp: py_strip_Nil)
  moreover have "load_model rt w k =
      (Inl (RuntimeError (of_ascii ''Model '' @ k @ of_ascii '' is not downloaded'')), w)"
    using assms(1,2) by (auto simp: load_model_def)
  ultimately show ?thesis
    using assms(3,4) by (simp add: generate_def)
qed

theorem generate_not_downloaded_witness:
  "MODELS (of_ascii ''en'') \<noteq> None \<and>
   \<not> is_model_downloaded (model_dirs (initial_world Map.empty Map.empty)) (of_ascii ''en'') \<and>
   py_strip (of_ascii ''Hi.'') \<noteq> [] \<and>
   of_ascii ''en'' \<notin> dom (models (initial_world Map.empty Map.empty)) \<and>
   generate toy_runtime (initial_world Map.empty Map.empty) (of_ascii ''Hi.'') (of_ascii ''en'') None =
     (Inl (RuntimeError (of_ascii ''Model en is not downloaded'')),
      initial_world Map.empty Map.empty)"
proof -
  have h1: "MODELS (of_ascii ''en'') \<noteq> None" by (simp add: MODELS_en)
  have h2: "\<not> is_model_downloaded (model_dirs (initial_world Map.empty Map.empty)) (of_ascii ''en'')"
    by (simp add: initial_world_def nothing_downloaded)
  have h3: "py_strip (of_ascii ''Hi.'') \<noteq> []"
    using Hi_nonempty by (simp add: py_strip_Hi)
  have h4: "of_ascii ''en'' \<notin> dom (models (initial_world Map.empty Map.empty))"
    by (simp add: initial_world_def)
  have "of_ascii ''Model '' @ of_ascii ''en'' @ of_ascii '' is not downloaded'' =
      of_ascii ''Model en is not downloaded''"
    by (simp add: of_ascii_def)
  then show ?thesis
    using h1 h2 h3 h4 generate_not_downloaded [OF h1 h2 h3 h4, of toy_runtime None] by simp
qed

text \<open>
  The two cases that the amended statement excludes. With a blank text the error is the
  \<open>ValueError\<close> of the first check, whatever the model's state; with the model resident in
  the registry \<open>generate\<close> does not call \<open>load_model\<close>, so a model whose files are gone from
  the disk still produces audio and writes the output file.
\<close>

theorem generate_not_downloaded_counterexample:
  "MODELS (of_ascii ''en'') \<noteq> None \<and>
   \<not> is_model_downloaded Map.empty (of_ascii ''en'') \<and>
   generate toy_runtime (initial_world Map.empty Map.empty) [32] (of_ascii ''en'') None =
     (Inl (ValueError (of_ascii ''Text cannot be empty'')), initial_world Map.empty Map.empty) \<and>
   generate toy_runtime ((initial_world Map.empty Map.empty)\<lparr>models := [of_ascii ''en'' \<mapsto> 7]\<rparr>)
       (of_ascii ''Hi.'') (of_ascii ''en'') None =
     (Inr ([2], of_ascii ''output_0a1b2c3d.wav''),
      (initial_world Map.empty Map.empty)
        \<lparr>models := [of_ascii ''en'' \<mapsto> 7],
         output_files := [of_ascii ''output_0a1b2c3d.wav'' \<mapsto> [2]],
         effects := [SaveAudio (of_ascii ''output_0a1b2c3d.wav''),
                     ReadFile (of_ascii ''output_0a1b2c3d.wav'')]\<rparr>)"
proof -
  have a: "generate toy_runtime (initial_world Map.empty Map.empty) [32] (of_ascii ''en'') None =
     (Inl (ValueError (of_ascii ''Text cannot be empty'')), initial_world Map.empty Map.empty)"
    by (simp add: generate_def py_strip_def py_isspace_def)
  have fn: "of_ascii ''output_'' @ of_ascii ''0a1b2c3d'' @ of_ascii ''.wav'' =
      of_ascii ''output_0a1b2c3d.wav''"
    by (simp add: of_ascii_def)
  have b: "generate_body toy_runtime
       ((initial_world Map.empty Map.empty)\<lparr>models := [of_ascii ''en'' \<mapsto> 7]\<rparr>) 7
       (of_ascii ''Hi.'') (of_ascii ''en'') None =
     (Inr ([2], of_ascii ''output_0a1b2c3d.wav''),
      (initial_world Map.empty Map.empty)
        \<lparr>models := [of_ascii ''en'' \<mapsto> 7],
         output_files := [of_ascii ''output_0a1b2c3d.wav'' \<mapsto> [2]],
         effects := [SaveAudio (of_ascii ''output_0a1b2c3d.wav''),
                     ReadFile (of_ascii ''output_0a1b2c3d.wav'')]\<rparr>)"
    unfolding generate_body_def split_Hi
    by (simp add: toy_runtime_def stitch_def fn initial_world_def Let_def numeral_2_eq_2)
  have c: "generate toy_runtime ((initial_world Map.empty Map.empty)\<lparr>models := [of_ascii ''en'' \<mapsto> 7]\<rparr>)
       (of_ascii ''Hi.'') (of_ascii ''en'') None =
     (Inr ([2], of_ascii ''output_0a1b2c3d.wav''),
      (initial_world Map.empty Map.empty)
        \<lparr>models := [of_ascii ''en'' \<mapsto> 7],
         output_files := [of_ascii ''output_0a1b2c3d.wav'' \<mapsto> [2]],
         effects := [SaveAudio (of_ascii ''output_0a1b2c3d.wav''),
                     ReadFile (of_ascii ''output_0a1b2c3d.wav'')]\<rparr>)"
    using b Hi_nonempty by (simp add: generate_def py_strip_Hi)
  show ?thesis
    using a c by (simp add: MODELS_en nothing_downloaded)
qed

section \<open>Unknown model keys\<close>

lemma load_model_known:
  "dom (models w) \<subseteq> dom MODELS \<Longrightarrow> dom (models (snd (load_model rt w k))) \<subseteq> dom MODELS"
  by (auto simp: load_model_def Let_def split: option.splits sum.splits if_splits)

lemma unload_model_known:
  "dom (models w) \<subseteq> dom MODELS \<Longrightarrow> dom (models (snd (unload_model w k))) \<subseteq> dom MODELS"
  by (auto simp: unload_model_def split: if_splits)

lemma generate_body_models:
  "models (snd (generate_body rt w model text k speaker)) = models w"
  by (auto simp: generate_body_def Let_def split: sum.splits)

lemma generate_known:
  assumes "dom (models w) \<subseteq> dom MODELS"
  shows "dom (models (snd (generate rt w text k speaker))) \<subseteq> dom MODELS"
proof (cases "text = [] \<or> py_strip text = []")
  case True
  then show ?thesis using assms by (auto simp: generate_def)
next
  case False
  obtain r w' where pre:
    "(if k \<notin> dom (models w) then load_model rt w k else (Inr True, w)) = (r, w')"
    by (cases "if k \<notin> dom (models w) then load_model rt w k else (Inr True, w)") auto
  have w': "dom (models w') \<subseteq> dom MODELS"
    using assms load_model_known [OF assms, of rt k] pre by (auto split: if_splits)
  show ?thesis
  proof (cases r)
    case (Inl e)
    then show ?thesis using False pre w' by (simp add: generate_def)
  next
    case (Inr loaded)
    show ?thesis
    proof (cases "models w' k")
      case None
      then show ?thesis using False pre Inr w' by (simp add: generate_def)
    next
      case (Some model)
      obtain rb w'' where body: "generate_body rt w' model text k speaker = (rb, w'')"
        by (cases "generate_body rt w' model text k speaker") auto
      have "models w'' = models w'"
        using generate_body_models [of rt w' model "text" k speaker] body by simp
      then show ?thesis
        using False pre Inr Some body w' by (cases rb) (simp_all add: generate_def)
    qed
  qed
qed

text \<open>
  The claim that every operation fails for an unknown key does not hold for
  \<open>unload_model\<close>, which never looks at the table: it returns \<open>False\<close>.
\<close>

theorem unknown_key_counterexample:
  "MODELS (of_ascii ''fr'') = None \<and>
   unload_model (initial_world Map.empty Map.empty) (of_ascii ''fr'') =
     (Inr False, initial_world Map.empty Map.empty)"
  by (simp add: MODELS_fr unload_model_def initial_world_def)

text \<open>
  C8, as the code has it. For a key that is not in \<open>MODELS\<close> and a registry that holds
  known keys only (which \<open>load_model\<close>, \<open>unload_model\<close> and \<open>generate\<close> preserve):
  \<open>load_model\<close> raises \<open>ValueError\<close> \<open>Unknown model: <key>\<close>; \<open>generate\<close> raises a
  \<open>ValueError\<close>, that of the blank text or that of \<open>load_model\<close>; the download generator
  yields the single dictionary with status \<open>error\<close> and message \<open>Unknown model\<close> and ends;
  all three leave the world as it was. \<open>unload_model\<close> does not fail: it returns \<open>False\<close>
  and changes nothing.
\<close>

theorem unknown_key_operations:
  assumes "MODELS k = None" and "dom (models w) \<subseteq> dom MODELS"
  shows "load_model rt w k = (Inl (ValueError (of_ascii ''Unknown model: '' @ k)), w) \<and>
         generate rt w text k speaker =
           (Inl (ValueError (if text = [] \<or> py_strip text = [] then of_ascii ''Text cannot be empty''
                             else of_ascii ''Unknown model: '' @ k)), w) \<and>
         download_model_with_progress hub dirs k =
           [Yield [(''status'', JStr (of_ascii ''error'')),
                   (''error_message'', JStr (of_ascii ''Unknown model''))]] \<and>
         unload_model w k = (Inr False, w)"
proof -
  have absent: "k \<notin> dom (models w)" using assms by auto
  have l: "load_model rt w k = (Inl (ValueError (of_ascii ''Unknown model: '' @ k)), w)"
    using assms(1) by (simp add: load_model_def)
  have g: "generate rt w text k speaker =
           (Inl (ValueError (if text = [] \<or> py_strip text = [] then of_ascii ''Text cannot be empty''
                             else of_ascii ''Unknown model: '' @ k)), w)"
    using absent l by (simp add: generate_def)
  have d: "download_model_with_progress hub dirs k =
           [Yield [(''status'', JStr (of_ascii ''error'')),
                   (''error_message'', JStr (of_ascii ''Unknown model''))]]"
    using assms(1) by (simp add: download_model_with_progress_def)
  have u: "unload_model w k = (Inr False, w)"
    using absent by (simp add: unload_model_def)
  from l g d u show ?thesis by blast
qed

theorem unknown_key_operations_witness:
  "MODELS (of_ascii ''fr'') = None \<and>
   dom (models (initial_world Map.empty Map.empty)) \<subseteq> dom MODELS \<and>
   load_model toy_runtime (initial_world Map.empty Map.empty) (of_ascii ''fr'') =
     (Inl (ValueError (of_ascii ''Unknown model: fr'')), initial_world Map.empty Map.empty) \<and>
   generate toy_runtime (initial_world Map.empty Map.empty) (of_ascii ''Hi.'') (of_ascii ''fr'') None =
     (Inl (ValueError (of_ascii ''Unknown model: fr'')), initial_world Map.empty Map.empty) \<and>
   download_model_with_progress
       \<lparr>repo_info = Inr [Some 10], polls = [(5, 1)], transfer_result = None\<rparr>
       Map.empty (of_ascii ''fr'') =
     [Yield [(''status'', JStr (of_ascii ''error'')),
             (''error_message'', JStr (of_ascii ''Unknown model''))]] \<and>
   unload_model (initial_world Map.empty Map.empty) (of_ascii ''fr'') =
     (Inr False, initial_world Map.empty Map.empty)"
proof -
  have h1: "MODELS (of_ascii ''fr'') = None" by (rule MODELS_fr)
  have h2: "dom (models (initial_world Map.empty Map.empty)) \<subseteq> dom MODELS"
    by (simp add: initial_world_def)
  have msg: "of_ascii ''Unknown model: '' @ of_ascii ''fr'' = of_ascii ''Unknown model: fr''"
    by (simp add: of_ascii_def)
  have nb: "py_strip (of_ascii ''Hi.'') \<noteq> []"
    using Hi_nonempty by (simp add: py_strip_Hi)
  show ?thesis
    using h1 h2 Hi_nonempty nb
      unknown_key_operations [OF h1 h2, of toy_runtime "of_ascii ''Hi.''" None
        "\<lparr>repo_info = Inr [Some 10], polls = [(5, 1)], transfer_result = None\<rparr>" Map.empty]
    by (simp add: msg)
qed

end
